theory Spec2Isabelle
  imports Main
begin

section \<open>Data model of the calendar tools (src/app.py)\<close>

text \<open>
  The three scheduling tools of \<^verbatim>\<open>src/app.py\<close> are embedded as HOL functions:
  \<^verbatim>\<open>list_events_tool\<close> (lines 92-148), \<^verbatim>\<open>find_available_slots_tool\<close> (lines 150-189) and
  \<^verbatim>\<open>create_event_tool\<close> (lines 191-228).

  A Python \<^verbatim>\<open>datetime\<close> that is aware and in UTC is an \<open>int\<close>: the number of microseconds
  since 1970-01-01T00:00:00+00:00. \<^verbatim>\<open>datetime\<close> has no leap seconds, so its arithmetic is
  the arithmetic of that number. Python strings are \<open>string\<close>.

  Exceptions are values: a function that can raise returns \<open>exn + 'a\<close>, with \<open>Inl\<close> the
  exception.
\<close>

datatype exn =
    KeyError string
  | ValueError string
  | IndexError string
  | OverflowError string
  | HttpError string

text \<open>\<^verbatim>\<open>str(e)\<close>: a \<^verbatim>\<open>KeyError\<close> prints the repr of the missing key, the others their message.\<close>

definition py_repr :: "string \<Rightarrow> string" where
  "py_repr s = [CHR 0x27] @ s @ [CHR 0x27]"

fun str_exn :: "exn \<Rightarrow> string" where
  "str_exn (KeyError k) = py_repr k"
| "str_exn (ValueError m) = m"
| "str_exn (IndexError m) = m"
| "str_exn (OverflowError m) = m"
| "str_exn (HttpError m) = m"

text \<open>
  An event as the backend returns it (a JSON object). Every key the code reads may be
  absent: \<open>None\<close> is the absent key. \<open>time_dict\<close> is the object under \<^verbatim>\<open>'start'\<close> and
  \<^verbatim>\<open>'end'\<close>: a timed event carries \<^verbatim>\<open>'dateTime'\<close>, an all-day event carries only \<^verbatim>\<open>'date'\<close>.
\<close>

record time_dict =
  dateTime :: "string option"
  date :: "string option"

record raw_event =
  ev_start :: "time_dict option"
  ev_end :: "time_dict option"
  ev_summary :: "string option"

text \<open>The keyword arguments of \<^verbatim>\<open>events().list(...)\<close> and the body of \<^verbatim>\<open>events().insert(...)\<close>.\<close>

record list_request =
  calendarId :: string
  timeMin :: string
  timeMax :: "string option"
  maxResults :: nat
  singleEvents :: bool
  orderBy :: string

record insert_request =
  ins_calendarId :: string
  ins_summary :: string
  ins_start_dateTime :: string
  ins_start_timeZone :: string
  ins_end_dateTime :: string
  ins_end_timeZone :: string

record created_event =
  htmlLink :: "string option"
  created_id :: "string option"

datatype request = ListReq list_request | InsertReq insert_request

text \<open>
  The calendar backend (\<^verbatim>\<open>calendar_service\<close> together with the configured calendar id) is
  an external collaborator: \<open>list_execute\<close> is what \<^verbatim>\<open>events().list(...).execute()\<close> answers
  (the value under \<^verbatim>\<open>'items'\<close>, \<open>None\<close> when the key is absent, or the exception raised),
  \<open>insert_execute\<close> what \<^verbatim>\<open>events().insert(...).execute()\<close> answers. Every tool returns,
  next to its result, the list of requests it issued to the backend, in order.
\<close>

record calendar_service =
  calendar_id :: string
  list_execute :: "list_request \<Rightarrow> exn + raw_event list option"
  insert_execute :: "insert_request \<Rightarrow> exn + created_event"

text \<open>
  The library functions the tools call: the clock \<^verbatim>\<open>datetime.now(UTC)\<close>, \<^verbatim>\<open>isoformat()\<close>,
  \<^verbatim>\<open>urllib.parse.parse_qs\<close> (a dict, here the list of its items in insertion order) and
  \<^verbatim>\<open>datetime.fromisoformat(s).astimezone(UTC)\<close>. The general theorems hold for every such
  library.
\<close>

record pylib =
  now :: int
  isoformat :: "int \<Rightarrow> string"
  parse_qs :: "string \<Rightarrow> exn + (string \<times> string list) list"
  fromisoformat_utc :: "string \<Rightarrow> exn + int"

section \<open>list_events_tool\<close>

text \<open>\<^verbatim>\<open>timedelta(days=7)\<close> in microseconds.\<close>

definition days_us :: "int \<Rightarrow> int" where
  "days_us d = d * 86400000000"

text \<open>
  Line 107, \<^verbatim>\<open>{k: v[0] for k, v in parse_qs(query).items()}\<close>: \<^verbatim>\<open>v[0]\<close> raises
  \<^verbatim>\<open>IndexError\<close> on an empty list.
\<close>

fun first_values :: "(string \<times> string list) list \<Rightarrow> exn + (string \<times> string) list" where
  "first_values [] = Inr []"
| "first_values ((k, v) # kvs) =
     (case v of
        [] \<Rightarrow> Inl (IndexError ''list index out of range'')
      | x # _ \<Rightarrow>
          (case first_values kvs of
             Inl e \<Rightarrow> Inl e
           | Inr ps \<Rightarrow> Inr ((k, x) # ps)))"

text \<open>\<^verbatim>\<open>params.get(key, default)\<close>.\<close>

definition dict_get :: "(string \<times> string) list \<Rightarrow> string \<Rightarrow> string \<Rightarrow> string" where
  "dict_get params k d = (case map_of params k of None \<Rightarrow> d | Some v \<Rightarrow> v)"

text \<open>Line 105, \<^verbatim>\<open>query and '=' in query\<close>.\<close>

definition has_params :: "string option \<Rightarrow> bool" where
  "has_params query =
     (case query of None \<Rightarrow> False | Some q \<Rightarrow> q \<noteq> [] \<and> CHR ''='' \<in> set q)"

text \<open>
  Lines 99-111: the time bounds of the request. \<open>Inl\<close> is the early return of line 111
  (the bare \<^verbatim>\<open>except\<close> catches whatever the \<^verbatim>\<open>try\<close> block raises).
\<close>

definition invalid_query_msg :: string where
  "invalid_query_msg = ''Invalid query format. Use: start_time=ISO_TIME&end_time=ISO_TIME''"

definition query_bounds :: "pylib \<Rightarrow> string option \<Rightarrow> string + string \<times> string" where
  "query_bounds lib query =
     (let time_min = isoformat lib (now lib);
          time_max = isoformat lib (now lib + days_us 7)
      in case (if has_params query then query else None) of
           Some q \<Rightarrow>
             (case parse_qs lib q of
                Inl e \<Rightarrow> Inl invalid_query_msg
              | Inr d \<Rightarrow>
                  (case first_values d of
                     Inl e \<Rightarrow> Inl invalid_query_msg
                   | Inr params \<Rightarrow>
                       Inr (dict_get params ''start_time'' time_min,
                            dict_get params ''end_time'' time_max)))
         | None \<Rightarrow> Inr (time_min, time_max))"

text \<open>\<^verbatim>\<open>d.get('dateTime', d.get('date'))\<close>: \<open>None\<close> is Python's \<^verbatim>\<open>None\<close>.\<close>

definition get_time :: "time_dict \<Rightarrow> string option" where
  "get_time d = (case dateTime d of Some v \<Rightarrow> Some v | None \<Rightarrow> date d)"

record listed_event =
  le_start :: "string option"
  le_summary :: string
  le_end :: "string option"

text \<open>
  Lines 127-140: the deduplication loop, with \<^verbatim>\<open>seen\<close> and \<^verbatim>\<open>unique_events\<close> as
  accumulators. A missing \<^verbatim>\<open>'start'\<close>, \<^verbatim>\<open>'summary'\<close> or \<^verbatim>\<open>'end'\<close> key raises \<^verbatim>\<open>KeyError\<close>, in
  the order in which the code reads them.
\<close>

fun unique_loop ::
  "raw_event list \<Rightarrow> (string option \<times> string) set \<Rightarrow> listed_event list
     \<Rightarrow> exn + listed_event list" where
  "unique_loop [] seen unique_events = Inr unique_events"
| "unique_loop (event # events) seen unique_events =
     (case ev_start event of
        None \<Rightarrow> Inl (KeyError ''start'')
      | Some s \<Rightarrow>
          (case ev_summary event of
             None \<Rightarrow> Inl (KeyError ''summary'')
           | Some summ \<Rightarrow>
               (let event_key = (get_time s, summ)
                in if event_key \<notin> seen then
                     (case ev_end event of
                        None \<Rightarrow> Inl (KeyError ''end'')
                      | Some e \<Rightarrow>
                          unique_loop events (insert event_key seen)
                            (unique_events @
                               [\<lparr>le_start = get_time s, le_summary = summ,
                                 le_end = get_time e\<rparr>]))
                   else unique_loop events seen unique_events)))"

text \<open>
  The tool returns a list of events or, in three places, a string (lines 111, 143, 148).
\<close>

datatype list_result = Message string | Events "listed_event list"

definition list_request_of :: "calendar_service \<Rightarrow> string \<Rightarrow> string \<Rightarrow> list_request" where
  "list_request_of cal time_min time_max =
     \<lparr>calendarId = calendar_id cal, timeMin = time_min, timeMax = Some time_max,
      maxResults = 20, singleEvents = True, orderBy = ''startTime''\<rparr>"

definition items_of :: "raw_event list option \<Rightarrow> raw_event list" where
  "items_of r = (case r of None \<Rightarrow> [] | Some items \<Rightarrow> items)"

definition list_events_tool ::
  "pylib \<Rightarrow> calendar_service \<Rightarrow> string option \<Rightarrow> list_result \<times> request list" where
  "list_events_tool lib cal query =
     (case query_bounds lib query of
        Inl msg \<Rightarrow> (Message msg, [])
      | Inr (time_min, time_max) \<Rightarrow>
          (let req = list_request_of cal time_min time_max
           in case list_execute cal req of
                Inl e \<Rightarrow> (Message (''Error fetching events: '' @ str_exn e), [ListReq req])
              | Inr events_result \<Rightarrow>
                  (case unique_loop (items_of events_result) {} [] of
                     Inl e \<Rightarrow>
                       (Message (''Error fetching events: '' @ str_exn e), [ListReq req])
                   | Inr unique_events \<Rightarrow>
                       if unique_events = [] then
                         (Message (''No events found between '' @ time_min @ '' and '' @ time_max),
                          [ListReq req])
                       else (Events unique_events, [ListReq req]))))"

section \<open>find_available_slots_tool\<close>

text \<open>
  \<^verbatim>\<open>datetime\<close> covers the years 1 to 9999 and \<^verbatim>\<open>timedelta\<close> at most 999999999 days either
  way; \<^verbatim>\<open>t + timedelta(minutes=m)\<close> raises \<^verbatim>\<open>OverflowError\<close> outside (in building the
  \<^verbatim>\<open>timedelta\<close> or in the sum). The texts of the two messages are abbreviated: the tool
  never catches the exception.
\<close>

definition dt_min :: int where
  "dt_min = - 62135596800000000"

definition dt_max :: int where
  "dt_max = 253402300799999999"

definition minutes_us :: "int \<Rightarrow> int" where
  "minutes_us m = m * 60000000"

definition timedelta_ok :: "int \<Rightarrow> bool" where
  "timedelta_ok us = (- 999999999 \<le> us div 86400000000 \<and> us div 86400000000 \<le> 999999999)"

definition add_minutes :: "int \<Rightarrow> int \<Rightarrow> exn + int" where
  "add_minutes t m =
     (if \<not> timedelta_ok (minutes_us m) then Inl (OverflowError ''timedelta out of range'')
      else if t + minutes_us m < dt_min \<or> dt_max < t + minutes_us m
        then Inl (OverflowError ''date value out of range'')
      else Inr (t + minutes_us m))"

text \<open>
  \<^verbatim>\<open>int(td.total_seconds() / 60)\<close> truncates towards zero. The quotient is a float in
  Python; the model takes it exact, which agrees as long as the float division does not
  round across a whole number of minutes. No theorem below reads \<open>duration_minutes\<close>.
\<close>

definition whole_minutes :: "int \<Rightarrow> int" where
  "whole_minutes us = (if 0 \<le> us then us div 60000000 else - ((- us) div 60000000))"

text \<open>
  A slot dictionary; \<open>slot_start\<close> and \<open>slot_end\<close> are the instants whose \<^verbatim>\<open>isoformat()\<close>
  the code stores under \<^verbatim>\<open>'start'\<close> and \<^verbatim>\<open>'end'\<close>.
\<close>

record slot =
  slot_start :: int
  slot_end :: int
  duration_minutes :: int

definition mk_slot :: "int \<Rightarrow> int \<Rightarrow> slot" where
  "mk_slot a b = \<lparr>slot_start = a, slot_end = b, duration_minutes = whole_minutes (b - a)\<rparr>"

text \<open>Lines 169-170: \<^verbatim>\<open>datetime.fromisoformat(event[k]['dateTime']).astimezone(UTC)\<close>.\<close>

definition event_instant :: "pylib \<Rightarrow> string \<Rightarrow> time_dict option \<Rightarrow> exn + int" where
  "event_instant lib k d =
     (case d of
        None \<Rightarrow> Inl (KeyError k)
      | Some td \<Rightarrow>
          (case dateTime td of
             None \<Rightarrow> Inl (KeyError ''dateTime'')
           | Some s \<Rightarrow> fromisoformat_utc lib s))"

text \<open>
  Lines 168-178: the sweep over the events, with \<^verbatim>\<open>last_end\<close> and \<^verbatim>\<open>available_slots\<close> as
  accumulators; it returns both.
\<close>

fun slot_loop ::
  "pylib \<Rightarrow> int \<Rightarrow> raw_event list \<Rightarrow> int \<Rightarrow> slot list \<Rightarrow> exn + int \<times> slot list" where
  "slot_loop lib min_duration [] last_end available_slots = Inr (last_end, available_slots)"
| "slot_loop lib min_duration (event # events) last_end available_slots =
     (case event_instant lib ''start'' (ev_start event) of
        Inl e \<Rightarrow> Inl e
      | Inr start \<Rightarrow>
          (case event_instant lib ''end'' (ev_end event) of
             Inl e \<Rightarrow> Inl e
           | Inr end_t \<Rightarrow>
               (case add_minutes last_end min_duration of
                  Inl e \<Rightarrow> Inl e
                | Inr bound \<Rightarrow>
                    slot_loop lib min_duration events (max last_end end_t)
                      (if start > bound then available_slots @ [mk_slot last_end start]
                       else available_slots))))"

text \<open>Line 181: \<^verbatim>\<open>now.replace(hour=23, minute=59, second=59)\<close> keeps date and microsecond.\<close>

definition end_of_day :: "int \<Rightarrow> int" where
  "end_of_day t = t - t mod 86400000000 + 86399000000 + t mod 1000000"

definition slots_request_of :: "pylib \<Rightarrow> calendar_service \<Rightarrow> list_request" where
  "slots_request_of lib cal =
     \<lparr>calendarId = calendar_id cal, timeMin = isoformat lib (now lib), timeMax = None,
      maxResults = 20, singleEvents = True, orderBy = ''startTime''\<rparr>"

text \<open>Nothing in this tool catches an exception: \<open>Inl\<close> is the exception it raises.\<close>

definition find_available_slots_tool ::
  "pylib \<Rightarrow> calendar_service \<Rightarrow> int \<Rightarrow> (exn + slot list) \<times> request list" where
  "find_available_slots_tool lib cal min_duration =
     (let req = slots_request_of lib cal
      in case list_execute cal req of
           Inl e \<Rightarrow> (Inl e, [ListReq req])
         | Inr events_result \<Rightarrow>
             (case slot_loop lib min_duration (items_of events_result) (now lib) [] of
                Inl e \<Rightarrow> (Inl e, [ListReq req])
              | Inr (last_end, available_slots) \<Rightarrow>
                  (case add_minutes last_end min_duration of
                     Inl e \<Rightarrow> (Inl e, [ListReq req])
                   | Inr bound \<Rightarrow>
                       (Inr (if end_of_day (now lib) > bound
                             then available_slots @ [mk_slot last_end (end_of_day (now lib))]
                             else available_slots),
                        [ListReq req]))))"

section \<open>create_event_tool\<close>

text \<open>The dictionary the tool returns: \<^verbatim>\<open>{"error": ...}\<close> or \<^verbatim>\<open>{"status": "success", ...}\<close>.\<close>

datatype create_result =
    Error string
  | Success (link: "string option") (event_id: "string option")

definition interval_msg :: string where
  "interval_msg = ''End time must be after start time''"

definition past_msg :: string where
  "past_msg = ''Cannot create events in the past''"

definition insert_request_of ::
  "pylib \<Rightarrow> calendar_service \<Rightarrow> string \<Rightarrow> int \<Rightarrow> int \<Rightarrow> insert_request" where
  "insert_request_of lib cal summary start end_t =
     \<lparr>ins_calendarId = calendar_id cal, ins_summary = summary,
      ins_start_dateTime = isoformat lib start, ins_start_timeZone = ''UTC'',
      ins_end_dateTime = isoformat lib end_t, ins_end_timeZone = ''UTC''\<rparr>"

text \<open>
  Lines 200-228. Every exception is caught at line 227 and returned as
  \<^verbatim>\<open>{"error": str(e)}\<close>.
\<close>

definition create_event_tool ::
  "pylib \<Rightarrow> calendar_service \<Rightarrow> string \<Rightarrow> string \<Rightarrow> string
     \<Rightarrow> create_result \<times> request list" where
  "create_event_tool lib cal summary start_time end_time =
     (case fromisoformat_utc lib start_time of
        Inl e \<Rightarrow> (Error (str_exn e), [])
      | Inr start \<Rightarrow>
          (case fromisoformat_utc lib end_time of
             Inl e \<Rightarrow> (Error (str_exn e), [])
           | Inr end_t \<Rightarrow>
               if start \<ge> end_t then (Error interval_msg, [])
               else if start < now lib then (Error past_msg, [])
               else
                 (let event = insert_request_of lib cal summary start end_t
                  in case insert_execute cal event of
                       Inl e \<Rightarrow> (Error (str_exn e), [InsertReq event])
                     | Inr created_event \<Rightarrow>
                         (Success (htmlLink created_event) (created_id created_event),
                          [InsertReq event]))))"

section \<open>A concrete library, for evaluating the tools\<close>

text \<open>
  The closed theorems below run the tools on a concrete library. \<open>isoformat_utc\<close> prints
  an instant as \<^verbatim>\<open>isoformat()\<close> prints an aware UTC \<^verbatim>\<open>datetime\<close>:
  \<^verbatim>\<open>YYYY-MM-DDTHH:MM:SS[.ffffff]+00:00\<close>. The date comes from the day number by the usual
  civil-calendar computation on 400-year eras starting on 1 March.
\<close>

fun digits :: "nat \<Rightarrow> int \<Rightarrow> string" where
  "digits 0 n = []"
| "digits (Suc k) n = digits k (n div 10) @ [char_of (48 + n mod 10)]"

definition civil_from_days :: "int \<Rightarrow> int \<times> int \<times> int" where
  "civil_from_days z0 =
     (let z = z0 + 719468;
          era = z div 146097;
          doe = z mod 146097;
          yoe = (doe - doe div 1460 + doe div 36524 - doe div 146096) div 365;
          doy = doe - (365 * yoe + yoe div 4 - yoe div 100);
          mp = (5 * doy + 2) div 153;
          d = doy - (153 * mp + 2) div 5 + 1;
          m = (if mp < 10 then mp + 3 else mp - 9);
          y = yoe + era * 400 + (if m \<le> 2 then 1 else 0)
      in (y, m, d))"

definition isoformat_utc :: "int \<Rightarrow> string" where
  "isoformat_utc t =
     (let (y, m, d) = civil_from_days (t div 86400000000);
          r = t mod 86400000000;
          secs = r div 1000000;
          us = r mod 1000000
      in digits 4 y @ ''-'' @ digits 2 m @ ''-'' @ digits 2 d @ ''T''
         @ digits 2 (secs div 3600) @ '':'' @ digits 2 (secs div 60 mod 60) @ '':''
         @ digits 2 (secs mod 60)
         @ (if us = 0 then [] else ''.'' @ digits 6 us) @ ''+00:00'')"

text \<open>
  \<open>urllib_parse_qs\<close> follows \<^verbatim>\<open>urllib.parse.parse_qs\<close> with its default arguments: split at
  \<^verbatim>\<open>&\<close>, skip empty fields and fields without \<^verbatim>\<open>=\<close>, split at the first \<^verbatim>\<open>=\<close>, skip blank
  values, replace \<^verbatim>\<open>+\<close> by a space, decode percent escapes, and collect the values of
  each name in order. Strings are byte strings here: a percent escape becomes its byte,
  and the replacement of undecodable bytes that Python's \<^verbatim>\<open>unquote\<close> performs afterwards is
  not modelled (it changes nothing on ASCII). With these arguments it raises nothing.
\<close>

fun split_on :: "char \<Rightarrow> string \<Rightarrow> string list" where
  "split_on c [] = [[]]"
| "split_on c (x # xs) =
     (if x = c then [] # split_on c xs
      else (case split_on c xs of [] \<Rightarrow> [[x]] | w # ws \<Rightarrow> (x # w) # ws))"

definition hex_val :: "char \<Rightarrow> nat option" where
  "hex_val c =
     (let n = of_char c :: nat
      in if 48 \<le> n \<and> n \<le> 57 then Some (n - 48)
         else if 65 \<le> n \<and> n \<le> 70 then Some (n - 55)
         else if 97 \<le> n \<and> n \<le> 102 then Some (n - 87)
         else None)"

fun unquote :: "string \<Rightarrow> string" where
  "unquote [] = []"
| "unquote [c] = [c]"
| "unquote [c, a] = [c, a]"
| "unquote (c # a # b # rest) =
     (if c = CHR ''%'' then
        (case (hex_val a, hex_val b) of
           (Some h, Some l) \<Rightarrow> char_of (16 * h + l) # unquote rest
         | _ \<Rightarrow> c # unquote (a # b # rest))
      else c # unquote (a # b # rest))"

definition plus_to_space :: "string \<Rightarrow> string" where
  "plus_to_space s = map (\<lambda>c. if c = CHR ''+'' then CHR '' '' else c) s"

fun parse_qsl :: "string list \<Rightarrow> (string \<times> string) list" where
  "parse_qsl [] = []"
| "parse_qsl (name_value # rest) =
     (if name_value = [] \<or> CHR ''='' \<notin> set name_value then parse_qsl rest
      else
        (let name = takeWhile (\<lambda>c. c \<noteq> CHR ''='') name_value;
             val = tl (dropWhile (\<lambda>c. c \<noteq> CHR ''='') name_value)
         in if val \<noteq> [] then
              (unquote (plus_to_space name), unquote (plus_to_space val)) # parse_qsl rest
            else parse_qsl rest))"

fun add_value :: "(string \<times> string list) list \<Rightarrow> string \<times> string \<Rightarrow> (string \<times> string list) list" where
  "add_value [] (name, val) = [(name, [val])]"
| "add_value ((k, vs) # d) (name, val) =
     (if k = name then (k, vs @ [val]) # d else (k, vs) # add_value d (name, val))"

definition urllib_parse_qs :: "string \<Rightarrow> exn + (string \<times> string list) list" where
  "urllib_parse_qs qs = Inr (foldl add_value [] (parse_qsl (split_on CHR ''&'' qs)))"

text \<open>
  \<open>fromisoformat_z\<close> reads the one shape \<^verbatim>\<open>YYYY-MM-DDTHH:MM:SSZ\<close> (UTC, as Python 3.11 and
  later read it) and agrees there with \<^verbatim>\<open>datetime.fromisoformat(s).astimezone(UTC)\<close>; any
  other string is reported as the \<^verbatim>\<open>ValueError\<close> of an invalid string, though Python reads
  more shapes. The closed theorems use this one shape only.
\<close>

fun number :: "string \<Rightarrow> int option" where
  "number [] = Some 0"
| "number (c # cs) =
     (let n = of_char c :: nat
      in if 48 \<le> n \<and> n \<le> 57 then
           (case number cs of
              None \<Rightarrow> None
            | Some r \<Rightarrow> Some ((int n - 48) * 10 ^ length cs + r))
         else None)"

definition days_from_civil :: "int \<Rightarrow> int \<Rightarrow> int \<Rightarrow> int" where
  "days_from_civil y0 m d =
     (let y = (if m \<le> 2 then y0 - 1 else y0);
          era = y div 400;
          yoe = y mod 400;
          doy = (153 * (if m > 2 then m - 3 else m + 9) + 2) div 5 + d - 1;
          doe = yoe * 365 + yoe div 4 - yoe div 100 + doy
      in era * 146097 + doe - 719468)"

definition fromisoformat_z :: "string \<Rightarrow> exn + int" where
  "fromisoformat_z s =
     (let bad = Inl (ValueError (''Invalid isoformat string: '' @ py_repr s))
      in if length s = 20 \<and> s ! 4 = CHR ''-'' \<and> s ! 7 = CHR ''-'' \<and> s ! 10 = CHR ''T''
            \<and> s ! 13 = CHR '':'' \<and> s ! 16 = CHR '':'' \<and> s ! 19 = CHR ''Z'' then
           (case (number (take 4 s), number (take 2 (drop 5 s)), number (take 2 (drop 8 s)),
                  number (take 2 (drop 11 s)), number (take 2 (drop 14 s)),
                  number (take 2 (drop 17 s))) of
              (Some y, Some m, Some d, Some h, Some mi, Some sec) \<Rightarrow>
                if 1 \<le> y \<and> 1 \<le> m \<and> m \<le> 12 \<and> 1 \<le> d \<and> h \<le> 23 \<and> mi \<le> 59 \<and> sec \<le> 59
                   \<and> civil_from_days (days_from_civil y m d) = (y, m, d)
                then Inr ((days_from_civil y m d * 86400 + h * 3600 + mi * 60 + sec) * 1000000)
                else bad
            | _ \<Rightarrow> bad)
         else bad)"

definition python :: "int \<Rightarrow> pylib" where
  "python clock =
     \<lparr>now = clock, isoformat = isoformat_utc, parse_qs = urllib_parse_qs,
      fromisoformat_utc = fromisoformat_z\<rparr>"

text \<open>
  A backend for the closed theorems: it holds a fixed list of events, answers every list
  request with the first \<^verbatim>\<open>maxResults\<close> of them and accepts every insert.
\<close>

definition timed_event :: "string \<Rightarrow> string \<Rightarrow> string \<Rightarrow> raw_event" where
  "timed_event title s e =
     \<lparr>ev_start = Some \<lparr>dateTime = Some s, date = None\<rparr>,
      ev_end = Some \<lparr>dateTime = Some e, date = None\<rparr>,
      ev_summary = Some title\<rparr>"

definition all_day_event :: "string \<Rightarrow> string \<Rightarrow> string \<Rightarrow> raw_event" where
  "all_day_event title s e =
     \<lparr>ev_start = Some \<lparr>dateTime = None, date = Some s\<rparr>,
      ev_end = Some \<lparr>dateTime = None, date = Some e\<rparr>,
      ev_summary = Some title\<rparr>"

definition holding :: "raw_event list \<Rightarrow> calendar_service" where
  "holding evs =
     \<lparr>calendar_id = ''primary'',
      list_execute = (\<lambda>req. Inr (Some (take (maxResults req) evs))),
      insert_execute =
        (\<lambda>req. Inr \<lparr>htmlLink = Some ''https://calendar.example/e1'', created_id = Some ''e1''\<rparr>)\<rparr>"

text \<open>
  \<open>serves cal matching\<close>: the backend answers every list request with the first
  \<^verbatim>\<open>maxResults\<close> of the events \<open>matching req\<close> that the calendar holds for it, in start
  order (the \<^verbatim>\<open>maxResults\<close> and \<^verbatim>\<open>orderBy\<close> parameters of the request).
\<close>

definition serves :: "calendar_service \<Rightarrow> (list_request \<Rightarrow> raw_event list) \<Rightarrow> bool" where
  "serves cal matching =
     (\<forall>req. list_execute cal req = Inr (Some (take (maxResults req) (matching req))))"

section \<open>Keys of the deduplication\<close>

text \<open>
  The key of a backend event is the tuple of lines 130-133, defined when the event has
  \<^verbatim>\<open>'start'\<close> and \<^verbatim>\<open>'summary'\<close>; the key of a listed event is the same pair read back
  from the dictionary of lines 136-140, which \<open>listing\<close> builds.
\<close>

definition raw_key :: "raw_event \<Rightarrow> (string option \<times> string) option" where
  "raw_key e =
     (case ev_start e of
        None \<Rightarrow> None
      | Some s \<Rightarrow> (case ev_summary e of None \<Rightarrow> None | Some t \<Rightarrow> Some (get_time s, t)))"

definition listed_key :: "listed_event \<Rightarrow> string option \<times> string" where
  "listed_key l = (le_start l, le_summary l)"

definition listing :: "raw_event \<Rightarrow> listed_event option" where
  "listing e =
     (case (ev_start e, ev_summary e, ev_end e) of
        (Some s, Some t, Some en) \<Rightarrow>
          Some \<lparr>le_start = get_time s, le_summary = t, le_end = get_time en\<rparr>
      | _ \<Rightarrow> None)"

text \<open>
  \<open>first_of_key evs l\<close>: the listed event \<open>l\<close> is built from an entry of \<open>evs\<close> that is the
  first one with its key.
\<close>

definition first_of_key :: "raw_event list \<Rightarrow> listed_event \<Rightarrow> bool" where
  "first_of_key evs l =
     (\<exists>i<length evs. listing (evs ! i) = Some l \<and> raw_key (evs ! i) = Some (listed_key l)
         \<and> (\<forall>j<i. raw_key (evs ! j) \<noteq> raw_key (evs ! i)))"

text \<open>Meetings from 09:30 to 10:00 on 2024-06-01, with the titles 00, 01, 02, ...\<close>

definition meetings :: "nat \<Rightarrow> raw_event list" where
  "meetings n =
     map (\<lambda>i. timed_event (digits 2 (int i)) ''2024-06-01T09:30:00Z'' ''2024-06-01T10:00:00Z'')
       [0..<n]"

text \<open>
  The start and end instants of a backend event as the sweep reads them (lines 169-170),
  when both are there and parse.
\<close>

definition event_span :: "pylib \<Rightarrow> raw_event \<Rightarrow> (int \<times> int) option" where
  "event_span lib e =
     (case (event_instant lib ''start'' (ev_start e), event_instant lib ''end'' (ev_end e)) of
        (Inr a, Inr b) \<Rightarrow> Some (a, b)
      | _ \<Rightarrow> None)"

text \<open>A standup from 09:31 to 10:00 and a lunch from 12:00 to 13:00 on 2024-06-01.\<close>

definition two_meetings :: "raw_event list" where
  "two_meetings =
     [timed_event ''standup'' ''2024-06-01T09:31:00Z'' ''2024-06-01T10:00:00Z'',
      timed_event ''lunch'' ''2024-06-01T12:00:00Z'' ''2024-06-01T13:00:00Z'']"

section \<open>Free slots: what the sweep emits\<close>

text \<open>
  The sweep keeps the invariant that every slot collected so far is strictly longer than
  \<open>min_duration\<close> minutes.
\<close>

lemma add_minutes_Inr: "add_minutes t m = Inr b \<Longrightarrow> b = t + minutes_us m"
  by (auto simp: add_minutes_def split: if_splits)

lemma slot_loop_long:
  "slot_loop lib m evs le acc = Inr (le', acc') \<Longrightarrow>
   (\<forall>s\<in>set acc. slot_start s + minutes_us m < slot_end s) \<Longrightarrow>
   (\<forall>s\<in>set acc'. slot_start s + minutes_us m < slot_end s)"
proof (induction evs arbitrary: le acc)
  case Nil
  then show ?case by simp
next
  case (Cons e evs)
  from Cons.prems(1) obtain st en b where
    b: "add_minutes le m = Inr b" and
    rec: "slot_loop lib m evs (max le en) (if st > b then acc @ [mk_slot le st] else acc)
            = Inr (le', acc')"
    by (auto split: sum.splits)
  have "\<forall>s\<in>set (if st > b then acc @ [mk_slot le st] else acc).
          slot_start s + minutes_us m < slot_end s"
    using Cons.prems(2) add_minutes_Inr[OF b] by (auto simp: mk_slot_def)
  from Cons.IH[OF rec this] show ?case .
qed

text \<open>
  Claim C8. Every interval in the list that \<^verbatim>\<open>find_available_slots_tool\<close> returns lasts at
  least \<open>min_duration\<close> minutes: its end minus its start is at least \<open>min_duration\<close> minutes,
  counted in microseconds.
\<close>

theorem slots_min_duration:
  assumes "fst (find_available_slots_tool lib cal m) = Inr slots" and "s \<in> set slots"
  shows "minutes_us m \<le> slot_end s - slot_start s"
proof -
  from assms(1) obtain r le acc b where
    loop: "slot_loop lib m (items_of r) (now lib) [] = Inr (le, acc)" and
    b: "add_minutes le m = Inr b" and
    out: "slots = (if end_of_day (now lib) > b
                   then acc @ [mk_slot le (end_of_day (now lib))] else acc)"
    by (auto simp: find_available_slots_tool_def Let_def split: sum.splits prod.splits)
  have "\<forall>s\<in>set acc. slot_start s + minutes_us m < slot_end s"
    using slot_loop_long[OF loop] by simp
  with out add_minutes_Inr[OF b] assms(2) have "slot_start s + minutes_us m < slot_end s"
    by (auto simp: mk_slot_def split: if_splits)
  then show ?thesis by simp
qed

text \<open>
  At 2024-06-01T09:00:00Z with one event from 09:31 to 10:00 and \<open>min_duration = 30\<close>, the
  tool returns the slots 09:00-09:31 and 10:00-23:59:59; the first lasts 31 minutes.
\<close>

theorem slots_min_duration_witness:
  "fst (find_available_slots_tool (python 1717232400000000)
          (holding [timed_event ''standup'' ''2024-06-01T09:31:00Z'' ''2024-06-01T10:00:00Z''])
          30)
     = Inr [mk_slot 1717232400000000 1717234260000000,
            mk_slot 1717236000000000 1717286399000000]
   \<and> minutes_us 30 \<le> slot_end (mk_slot 1717232400000000 1717234260000000)
                        - slot_start (mk_slot 1717232400000000 1717234260000000)"
proof -
  have run: "fst (find_available_slots_tool (python 1717232400000000)
          (holding [timed_event ''standup'' ''2024-06-01T09:31:00Z'' ''2024-06-01T10:00:00Z''])
          30)
     = Inr [mk_slot 1717232400000000 1717234260000000,
            mk_slot 1717236000000000 1717286399000000]"
    by code_simp
  from slots_min_duration[OF run, of "mk_slot 1717232400000000 1717234260000000"] run
  show ?thesis by simp
qed

text \<open>
  Claim C1. The claim has the sweep emit the slot from the cursor to the next event's
  start exactly when that gap is at least \<open>min_duration\<close> minutes, and the trailing slot
  likewise, so that a gap of exactly \<open>min_duration\<close> minutes is emitted. The code compares
  with \<^verbatim>\<open>>\<close> (lines 172 and 182): a gap of exactly \<open>min_duration\<close> minutes is dropped,
  although the docstring promises slots of at least \<open>min_duration\<close> minutes. At
  2024-06-01T09:00:00Z with one event from 09:30 to 10:00 and \<open>min_duration = 30\<close>, the
  30-minute gap from 09:00 to 09:30 is not in the output; at 23:29:59 with no events, the
  30 minutes up to 23:59:59 are not in the output either.
\<close>

theorem exact_gap_is_dropped:
  "fromisoformat_z ''2024-06-01T09:30:00Z'' = Inr (1717232400000000 + minutes_us 30)
   \<and> fst (find_available_slots_tool (python 1717232400000000)
          (holding [timed_event ''standup'' ''2024-06-01T09:30:00Z'' ''2024-06-01T10:00:00Z''])
          30)
     = Inr [mk_slot 1717236000000000 1717286399000000]
   \<and> end_of_day 1717284599000000 = 1717284599000000 + minutes_us 30
   \<and> fst (find_available_slots_tool (python 1717284599000000) (holding []) 30) = Inr []"
  by code_simp

section \<open>create_event_tool: the two preconditions\<close>

text \<open>
  Claim C2, as amended. \<^verbatim>\<open>create_event_tool\<close> checks its preconditions before any backend
  call and in this order: for every input whose end is not after its start it returns the
  error "End time must be after start time" (InvalidInterval); for every input whose end is
  after its start and whose start is before now it returns the error "Cannot create events
  in the past" (PastEvent); in both cases it issues no request to the backend. The inputs
  are those whose two time strings parse.
\<close>

theorem create_event_preconditions:
  assumes "fromisoformat_utc lib start_time = Inr start"
      and "fromisoformat_utc lib end_time = Inr end_t"
  shows "(end_t \<le> start \<longrightarrow>
            create_event_tool lib cal summary start_time end_time = (Error interval_msg, []))
       \<and> (start < end_t \<and> start < now lib \<longrightarrow>
            create_event_tool lib cal summary start_time end_time = (Error past_msg, []))"
  using assms by (simp add: create_event_tool_def)

text \<open>
  With now = 2024-06-01T09:00:00Z: an event from 10:00 to 09:00 on 2099-01-01 is refused
  for its interval, an event from 10:00 to 11:00 on 2020-01-01 for lying in the past.
\<close>

theorem create_event_preconditions_witness:
  "fromisoformat_utc (python 1717232400000000) ''2099-01-01T10:00:00Z'' = Inr 4070944800000000
   \<and> fromisoformat_utc (python 1717232400000000) ''2099-01-01T09:00:00Z'' = Inr 4070941200000000
   \<and> create_event_tool (python 1717232400000000) (holding []) ''review''
        ''2099-01-01T10:00:00Z'' ''2099-01-01T09:00:00Z'' = (Error interval_msg, [])
   \<and> fromisoformat_utc (python 1717232400000000) ''2020-01-01T10:00:00Z'' = Inr 1577872800000000
   \<and> fromisoformat_utc (python 1717232400000000) ''2020-01-01T11:00:00Z'' = Inr 1577876400000000
   \<and> create_event_tool (python 1717232400000000) (holding []) ''review''
        ''2020-01-01T10:00:00Z'' ''2020-01-01T11:00:00Z'' = (Error past_msg, [])"
proof -
  have a: "fromisoformat_utc (python 1717232400000000) ''2099-01-01T10:00:00Z'' = Inr 4070944800000000"
    by code_simp
  have b: "fromisoformat_utc (python 1717232400000000) ''2099-01-01T09:00:00Z'' = Inr 4070941200000000"
    by code_simp
  have c: "fromisoformat_utc (python 1717232400000000) ''2020-01-01T10:00:00Z'' = Inr 1577872800000000"
    by code_simp
  have d: "fromisoformat_utc (python 1717232400000000) ''2020-01-01T11:00:00Z'' = Inr 1577876400000000"
    by code_simp
  have n: "now (python 1717232400000000) = 1717232400000000"
    by (simp add: python_def)
  from create_event_preconditions[OF a b, of "holding []" "''review''"]
       create_event_preconditions[OF c d, of "holding []" "''review''"] a b c d n
  show ?thesis by simp
qed

text \<open>
  Claim C2 as stated has every input with a start before now fail with PastEvent. An
  input whose start lies in the past and whose end is not after its start fails with the
  interval error instead, since line 205 is checked before line 207: with
  now = 2024-06-01T09:00:00Z, start 2020-01-01T10:00:00Z and end 2020-01-01T09:00:00Z.
\<close>

theorem past_start_counterexample:
  "fromisoformat_utc (python 1717232400000000) ''2020-01-01T10:00:00Z'' = Inr 1577872800000000
   \<and> 1577872800000000 < now (python 1717232400000000)
   \<and> fst (create_event_tool (python 1717232400000000) (holding []) ''review''
        ''2020-01-01T10:00:00Z'' ''2020-01-01T09:00:00Z'') = Error interval_msg
   \<and> Error interval_msg \<noteq> Error past_msg"
  by code_simp

section \<open>list_events_tool: bounds, requests and the empty answer\<close>

text \<open>
  Once the bounds are fixed (no early return at line 111), the tool issues exactly one
  list request, carrying them.
\<close>

lemma list_events_tool_bounds:
  assumes "query_bounds lib query = Inr (tmin, tmax)"
  shows "snd (list_events_tool lib cal query) = [ListReq (list_request_of cal tmin tmax)]"
  using assms by (simp add: list_events_tool_def Let_def split: sum.splits)

lemma query_bounds_parsed:
  assumes "has_params (Some q)" and "parse_qs lib q = Inr d" and "first_values d = Inr params"
  shows "query_bounds lib (Some q) =
           Inr (dict_get params ''start_time'' (isoformat lib (now lib)),
                dict_get params ''end_time'' (isoformat lib (now lib + days_us 7)))"
  using assms by (simp add: query_bounds_def Let_def)

lemma query_bounds_default:
  assumes "\<not> has_params query"
  shows "query_bounds lib query =
           Inr (isoformat lib (now lib), isoformat lib (now lib + days_us 7))"
  using assms by (simp add: query_bounds_def Let_def)

text \<open>
  Claim C4, as amended. When the backend returns no events for the queried range,
  \<^verbatim>\<open>list_events_tool\<close> returns neither an error nor a sequence: it returns the text
  "No events found between <timeMin> and <timeMax>" (lines 142-143), as its docstring
  says ("list of events or message if none found").
\<close>

theorem no_events_message:
  assumes "query_bounds lib query = Inr (tmin, tmax)"
      and "list_execute cal (list_request_of cal tmin tmax) = Inr r"
      and "items_of r = []"
  shows "fst (list_events_tool lib cal query)
           = Message (''No events found between '' @ tmin @ '' and '' @ tmax)"
  using assms by (simp add: list_events_tool_def Let_def)

text \<open>With now = 2024-06-01T09:00:00Z, no query and an empty calendar.\<close>

theorem no_events_message_witness:
  "query_bounds (python 1717232400000000) None
     = Inr (''2024-06-01T09:00:00+00:00'', ''2024-06-08T09:00:00+00:00'')
   \<and> list_execute (holding [])
        (list_request_of (holding []) ''2024-06-01T09:00:00+00:00'' ''2024-06-08T09:00:00+00:00'')
       = Inr (Some [])
   \<and> fst (list_events_tool (python 1717232400000000) (holding []) None)
       = Message (''No events found between '' @ ''2024-06-01T09:00:00+00:00'' @ '' and ''
                    @ ''2024-06-08T09:00:00+00:00'')"
proof -
  have a: "query_bounds (python 1717232400000000) None
     = Inr (''2024-06-01T09:00:00+00:00'', ''2024-06-08T09:00:00+00:00'')"
    by code_simp
  have b: "list_execute (holding [])
        (list_request_of (holding []) ''2024-06-01T09:00:00+00:00'' ''2024-06-08T09:00:00+00:00'')
       = Inr (Some [])"
    by (simp add: holding_def)
  have c: "items_of (Some []) = []"
    by (simp add: items_of_def)
  from no_events_message[OF a b c] a b show ?thesis by simp
qed

text \<open>
  Claim C4 as stated has the tool return an empty sequence. On an empty calendar it
  returns a string, which is not the empty list of events.
\<close>

theorem no_events_counterexample:
  "fst (list_events_tool (python 1717232400000000) (holding []) None)
     = Message ''No events found between 2024-06-01T09:00:00+00:00 and 2024-06-08T09:00:00+00:00''
   \<and> fst (list_events_tool (python 1717232400000000) (holding []) None) \<noteq> Events []"
  by code_simp

text \<open>
  Claim C5, as amended. \<^verbatim>\<open>list_events_tool\<close> never compares \<^verbatim>\<open>timeMin\<close> with \<^verbatim>\<open>timeMax\<close>
  and has no InvalidRange error: for every pair of bounds that the query gives, also with
  \<^verbatim>\<open>timeMin >= timeMax\<close>, it issues exactly one list request to the backend, carrying
  those bounds unchanged; what it returns is decided by the backend's answer.
\<close>

theorem list_events_forwards_bounds:
  assumes "has_params (Some q)" and "parse_qs lib q = Inr d" and "first_values d = Inr params"
      and "map_of params ''start_time'' = Some tmin" and "map_of params ''end_time'' = Some tmax"
  shows "snd (list_events_tool lib cal (Some q))
           = [ListReq \<lparr>calendarId = calendar_id cal, timeMin = tmin, timeMax = Some tmax,
                       maxResults = 20, singleEvents = True, orderBy = ''startTime''\<rparr>]"
  using list_events_tool_bounds[OF query_bounds_parsed[OF assms(1-3)], of cal] assms(4,5)
  by (simp add: dict_get_def list_request_of_def)

text \<open>
  Claim C5 as stated has the tool fail with InvalidRange before any backend call when
  \<^verbatim>\<open>timeMin >= timeMax\<close>. With \<^verbatim>\<open>start_time\<close> one day after \<^verbatim>\<open>end_time\<close> the request goes to
  the backend with the reversed bounds, and the result is the backend's (here: no
  events).
\<close>

theorem reversed_range_counterexample:
  "fromisoformat_z ''2099-01-02T00:00:00Z'' = Inr 4070995200000000
   \<and> fromisoformat_z ''2099-01-01T00:00:00Z'' = Inr 4070908800000000
   \<and> list_events_tool (python 1717232400000000) (holding [])
        (Some ''start_time=2099-01-02T00:00:00Z&end_time=2099-01-01T00:00:00Z'')
     = (Message ''No events found between 2099-01-02T00:00:00Z and 2099-01-01T00:00:00Z'',
        [ListReq \<lparr>calendarId = ''primary'', timeMin = ''2099-01-02T00:00:00Z'',
                   timeMax = Some ''2099-01-01T00:00:00Z'', maxResults = 20,
                   singleEvents = True, orderBy = ''startTime''\<rparr>])"
  by code_simp

text \<open>The same query, parsed by the concrete library.\<close>

theorem list_events_forwards_bounds_witness:
  "has_params (Some ''start_time=2099-01-02T00:00:00Z&end_time=2099-01-01T00:00:00Z'')
   \<and> snd (list_events_tool (python 1717232400000000) (holding [])
        (Some ''start_time=2099-01-02T00:00:00Z&end_time=2099-01-01T00:00:00Z''))
     = [ListReq \<lparr>calendarId = calendar_id (holding []), timeMin = ''2099-01-02T00:00:00Z'',
                  timeMax = Some ''2099-01-01T00:00:00Z'', maxResults = 20,
                  singleEvents = True, orderBy = ''startTime''\<rparr>]"
proof -
  let ?q = "''start_time=2099-01-02T00:00:00Z&end_time=2099-01-01T00:00:00Z''"
  let ?d = "[(''start_time'', [''2099-01-02T00:00:00Z'']), (''end_time'', [''2099-01-01T00:00:00Z''])]"
  let ?p = "[(''start_time'', ''2099-01-02T00:00:00Z''), (''end_time'', ''2099-01-01T00:00:00Z'')]"
  have a: "has_params (Some ?q)" by code_simp
  have b: "parse_qs (python 1717232400000000) ?q = Inr ?d" by code_simp
  have c: "first_values ?d = Inr ?p" by code_simp
  have d: "map_of ?p ''start_time'' = Some ''2099-01-02T00:00:00Z''" by code_simp
  have e: "map_of ?p ''end_time'' = Some ''2099-01-01T00:00:00Z''" by code_simp
  from list_events_forwards_bounds[OF a b c d e, of "holding []"] a show ?thesis by simp
qed

section \<open>list_events_tool: malformed queries\<close>

text \<open>
  The text of line 111 is returned exactly when fixing the bounds took the early return;
  the other strings the tool returns start differently.
\<close>

lemma list_events_tool_invalid:
  "(fst (list_events_tool lib cal query) = Message invalid_query_msg)
     = (\<exists>m. query_bounds lib query = Inl m)"
proof (cases "query_bounds lib query")
  case (Inl m)
  then have "m = invalid_query_msg"
    by (auto simp: query_bounds_def Let_def split: option.splits sum.splits if_splits)
  with Inl show ?thesis by (simp add: list_events_tool_def)
next
  case (Inr b)
  obtain tmin tmax where b: "b = (tmin, tmax)" by (cases b)
  have "fst (list_events_tool lib cal query) \<noteq> Message invalid_query_msg"
    using Inr b
    by (auto simp: list_events_tool_def Let_def invalid_query_msg_def split: sum.splits)
  with Inr show ?thesis by simp
qed

text \<open>
  Claim C7, as amended. \<^verbatim>\<open>list_events_tool\<close> never crashes on a query string, but a
  malformed one is not always rejected: a query that is absent, empty or without \<^verbatim>\<open>=\<close>
  silently proceeds with the default bounds (now and now + 7 days), and a query with
  \<^verbatim>\<open>=\<close> yields the "Invalid query format" text exactly when \<^verbatim>\<open>parse_qs\<close>, or taking the
  first value of each of its entries, raises. That the tool never crashes is the totality
  of \<open>list_events_tool\<close>: every exception of lines 106-109 and 114-145 is caught.
\<close>

theorem malformed_query_handling:
  "(\<not> has_params query \<longrightarrow>
       snd (list_events_tool lib cal query)
         = [ListReq (list_request_of cal (isoformat lib (now lib))
                       (isoformat lib (now lib + days_us 7)))])
   \<and> ((fst (list_events_tool lib cal query) = Message invalid_query_msg)
        = (\<exists>q. query = Some q \<and> has_params query
               \<and> (isl (parse_qs lib q)
                   \<or> (\<exists>d. parse_qs lib q = Inr d \<and> isl (first_values d)))))"
proof -
  have one: "\<not> has_params query \<longrightarrow>
       snd (list_events_tool lib cal query)
         = [ListReq (list_request_of cal (isoformat lib (now lib))
                       (isoformat lib (now lib + days_us 7)))]"
    using list_events_tool_bounds[OF query_bounds_default] by blast
  have two: "(\<exists>m. query_bounds lib query = Inl m)
        = (\<exists>q. query = Some q \<and> has_params query
               \<and> (isl (parse_qs lib q)
                   \<or> (\<exists>d. parse_qs lib q = Inr d \<and> isl (first_values d))))"
    by (cases query; cases "has_params query")
       (auto simp: query_bounds_def Let_def isl_def split: sum.splits)
  show ?thesis using one two list_events_tool_invalid[of lib cal query] by simp
qed

text \<open>
  Claim C7 as stated has every malformed query string yield InvalidQueryFormat and never
  proceed with default bounds. The query \<^verbatim>\<open>tomorrow\<close> has no \<^verbatim>\<open>=\<close>: the tool proceeds with
  the default bounds and asks the backend. Neither \<^verbatim>\<open>start_time?now\<close> nor \<^verbatim>\<open>=&x=&==\<close>
  yields the "Invalid query format" text.
\<close>

theorem malformed_query_counterexample:
  "\<not> has_params (Some ''tomorrow'')
   \<and> list_events_tool (python 1717232400000000) (holding []) (Some ''tomorrow'')
     = (Message ''No events found between 2024-06-01T09:00:00+00:00 and 2024-06-08T09:00:00+00:00'',
        [ListReq \<lparr>calendarId = ''primary'', timeMin = ''2024-06-01T09:00:00+00:00'',
                   timeMax = Some ''2024-06-08T09:00:00+00:00'', maxResults = 20,
                   singleEvents = True, orderBy = ''startTime''\<rparr>])
   \<and> fst (list_events_tool (python 1717232400000000) (holding []) (Some ''start_time?now''))
       \<noteq> Message invalid_query_msg
   \<and> fst (list_events_tool (python 1717232400000000) (holding []) (Some ''=&x=&==''))
       \<noteq> Message invalid_query_msg"
  by code_simp

text \<open>The query \<^verbatim>\<open>tomorrow\<close> at 2024-06-01T09:00:00Z.\<close>

theorem malformed_query_handling_witness:
  "\<not> has_params (Some ''tomorrow'')
   \<and> snd (list_events_tool (python 1717232400000000) (holding []) (Some ''tomorrow''))
       = [ListReq (list_request_of (holding [])
                     (isoformat (python 1717232400000000) (now (python 1717232400000000)))
                     (isoformat (python 1717232400000000)
                        (now (python 1717232400000000) + days_us 7)))]"
proof -
  have a: "\<not> has_params (Some ''tomorrow'')" by code_simp
  from malformed_query_handling[of "Some ''tomorrow''" "python 1717232400000000" "holding []"] a
  show ?thesis by simp
qed

section \<open>find_available_slots_tool: durations that are not positive\<close>

text \<open>
  Subtracting minutes from an instant of the \<^verbatim>\<open>datetime\<close> range raises nothing as long as
  the result stays in the range; the sweep then runs through every list of timed events.
\<close>

lemma add_minutes_nonpositive:
  assumes "m \<le> 0" and "dt_min \<le> t + minutes_us m" and "t \<le> dt_max"
  shows "add_minutes t m = Inr (t + minutes_us m)"
proof -
  have neg: "minutes_us m \<le> 0" using assms(1) by (simp add: minutes_us_def)
  have low: "dt_min - dt_max \<le> minutes_us m" using assms(2,3) by simp
  have "(dt_min - dt_max) div 86400000000 \<le> minutes_us m div 86400000000"
    using low by (rule zdiv_mono1) simp
  moreover have "minutes_us m div 86400000000 \<le> 0 div 86400000000"
    using neg by (rule zdiv_mono1) simp
  ultimately have "timedelta_ok (minutes_us m)"
    by (simp add: timedelta_ok_def dt_min_def dt_max_def)
  then show ?thesis using assms(2,3) neg by (simp add: add_minutes_def)
qed

lemma slot_loop_nonpositive:
  assumes "m \<le> 0"
  shows "dt_min \<le> le + minutes_us m \<Longrightarrow> le \<le> dt_max \<Longrightarrow>
     (\<forall>e\<in>set evs. \<exists>a b. event_instant lib ''start'' (ev_start e) = Inr a
                      \<and> event_instant lib ''end'' (ev_end e) = Inr b \<and> b \<le> dt_max) \<Longrightarrow>
     \<exists>le' acc'. slot_loop lib m evs le acc = Inr (le', acc') \<and> le \<le> le' \<and> le' \<le> dt_max"
proof (induction evs arbitrary: le acc)
  case Nil
  then show ?case by simp
next
  case (Cons e evs)
  from Cons.prems(3) obtain a b where
    a: "event_instant lib ''start'' (ev_start e) = Inr a" and
    b: "event_instant lib ''end'' (ev_end e) = Inr b" and bmax: "b \<le> dt_max"
    by auto
  have add: "add_minutes le m = Inr (le + minutes_us m)"
    using add_minutes_nonpositive[OF assms Cons.prems(1,2)] .
  have p1: "dt_min \<le> max le b + minutes_us m" using Cons.prems(1) by simp
  have p2: "max le b \<le> dt_max" using Cons.prems(2) bmax by simp
  have p3: "\<forall>e\<in>set evs. \<exists>a b. event_instant lib ''start'' (ev_start e) = Inr a
                      \<and> event_instant lib ''end'' (ev_end e) = Inr b \<and> b \<le> dt_max"
    using Cons.prems(3) by simp
  from Cons.IH[OF p1 p2 p3,
      of "if le + minutes_us m < a then acc @ [mk_slot le a] else acc"]
  obtain le' acc' where
    r: "slot_loop lib m evs (max le b)
          (if le + minutes_us m < a then acc @ [mk_slot le a] else acc) = Inr (le', acc')"
    and o: "max le b \<le> le'" "le' \<le> dt_max"
    by blast
  show ?case using a b add r o by simp
qed

text \<open>
  Claim C6, as amended. \<^verbatim>\<open>find_available_slots_tool\<close> does not check \<open>min_duration\<close> and has
  no InvalidDuration error: for every \<open>min_duration \<le> 0\<close> it asks the backend and runs the
  same sweep, and it returns a slot list whenever the backend answers with timed events
  whose start and end parse (no end beyond the \<^verbatim>\<open>datetime\<close> range) and
  now + \<open>min_duration\<close> minutes is within the \<^verbatim>\<open>datetime\<close> range.
\<close>

theorem nonpositive_duration_accepted:
  assumes "m \<le> 0"
      and "dt_min \<le> now lib + minutes_us m" and "now lib \<le> dt_max"
      and "list_execute cal (slots_request_of lib cal) = Inr r"
      and "\<forall>e\<in>set (items_of r). \<exists>a b. event_instant lib ''start'' (ev_start e) = Inr a
                      \<and> event_instant lib ''end'' (ev_end e) = Inr b \<and> b \<le> dt_max"
  shows "\<exists>slots. find_available_slots_tool lib cal m
                   = (Inr slots, [ListReq (slots_request_of lib cal)])"
proof -
  from slot_loop_nonpositive[OF assms(1,2,3,5), of "[]"] obtain le acc where
    loop: "slot_loop lib m (items_of r) (now lib) [] = Inr (le, acc)" and
    o: "now lib \<le> le" "le \<le> dt_max"
    by blast
  have "dt_min \<le> le + minutes_us m" using assms(2) o(1) by simp
  from add_minutes_nonpositive[OF assms(1) this o(2)]
  show ?thesis using loop assms(4) by (simp add: find_available_slots_tool_def Let_def)
qed

text \<open>
  Claim C6 as stated has the tool fail with InvalidDuration for \<open>min_duration \<le> 0\<close>. At
  2024-06-01T09:00:00Z on an empty calendar, \<open>min_duration = 0\<close> returns the slot from now
  to 23:59:59. With \<open>min_duration = - 30\<close> and an event from 08:50 to 09:20 the tool returns
  two slots, the first one running backwards from 09:00 to 08:50.
\<close>

theorem zero_duration_counterexample:
  "find_available_slots_tool (python 1717232400000000) (holding []) 0
     = (Inr [mk_slot 1717232400000000 1717286399000000],
        [ListReq (slots_request_of (python 1717232400000000) (holding []))])
   \<and> fst (find_available_slots_tool (python 1717232400000000)
        (holding [timed_event ''standup'' ''2024-06-01T08:50:00Z'' ''2024-06-01T09:20:00Z'']) (- 30))
     = Inr [mk_slot 1717232400000000 1717231800000000,
            mk_slot 1717233600000000 1717286399000000]"
  by code_simp

text \<open>\<open>min_duration = - 30\<close> at 2024-06-01T09:00:00Z with the event from 08:50 to 09:20.\<close>

theorem nonpositive_duration_accepted_witness:
  "(- 30 :: int) \<le> 0
   \<and> dt_min \<le> now (python 1717232400000000) + minutes_us (- 30)
   \<and> now (python 1717232400000000) \<le> dt_max
   \<and> (\<exists>slots. find_available_slots_tool (python 1717232400000000)
          (holding [timed_event ''standup'' ''2024-06-01T08:50:00Z'' ''2024-06-01T09:20:00Z''])
          (- 30)
        = (Inr slots,
           [ListReq (slots_request_of (python 1717232400000000)
              (holding [timed_event ''standup'' ''2024-06-01T08:50:00Z''
                          ''2024-06-01T09:20:00Z'']))]))"
proof -
  let ?lib = "python 1717232400000000"
  let ?e = "timed_event ''standup'' ''2024-06-01T08:50:00Z'' ''2024-06-01T09:20:00Z''"
  have a: "(- 30 :: int) \<le> 0" by simp
  have b: "dt_min \<le> now ?lib + minutes_us (- 30)" by code_simp
  have c: "now ?lib \<le> dt_max" by code_simp
  have d: "list_execute (holding [?e]) (slots_request_of ?lib (holding [?e])) = Inr (Some [?e])"
    by (simp add: holding_def slots_request_of_def)
  have s: "event_instant ?lib ''start'' (ev_start ?e) = Inr 1717231800000000" by code_simp
  have t: "event_instant ?lib ''end'' (ev_end ?e) = Inr 1717233600000000" by code_simp
  have u: "(1717233600000000::int) \<le> dt_max" by code_simp
  have e: "\<forall>e\<in>set (items_of (Some [?e])). \<exists>a b. event_instant ?lib ''start'' (ev_start e) = Inr a
                      \<and> event_instant ?lib ''end'' (ev_end e) = Inr b \<and> b \<le> dt_max"
    using s t u by (simp add: items_of_def)
  from nonpositive_duration_accepted[OF a b c d e] a b c show ?thesis by simp
qed

section \<open>list_events_tool: deduplication\<close>

text \<open>One round of the loop of lines 129-140, when the loop ends without an exception.\<close>

lemma unique_loop_step:
  assumes "unique_loop (e # evs) seen acc = Inr out"
  shows "\<exists>s t. raw_key e = Some (get_time s, t)
      \<and> ((get_time s, t) \<in> seen \<longrightarrow> unique_loop evs seen acc = Inr out)
      \<and> ((get_time s, t) \<notin> seen \<longrightarrow>
            (\<exists>l. listing e = Some l \<and> listed_key l = (get_time s, t)
               \<and> unique_loop evs (insert (get_time s, t) seen) (acc @ [l]) = Inr out))"
  using assms
  by (auto simp: raw_key_def listing_def listed_key_def Let_def
           split: option.splits if_splits)

lemma first_of_key_head:
  assumes "listing e = Some l" and "raw_key e = Some (listed_key l)"
  shows "first_of_key (e # evs) l"
  unfolding first_of_key_def using assms by (intro exI[of _ 0]) simp

lemma first_of_key_tail:
  assumes "first_of_key evs l" and "raw_key e \<noteq> Some (listed_key l)"
  shows "first_of_key (e # evs) l"
proof -
  from assms(1) obtain i where i: "i < length evs" "listing (evs ! i) = Some l"
    "raw_key (evs ! i) = Some (listed_key l)" "\<forall>j<i. raw_key (evs ! j) \<noteq> raw_key (evs ! i)"
    unfolding first_of_key_def by blast
  have "\<forall>j<Suc i. raw_key ((e # evs) ! j) \<noteq> raw_key ((e # evs) ! Suc i)"
  proof (intro allI impI)
    fix j assume "j < Suc i"
    then show "raw_key ((e # evs) ! j) \<noteq> raw_key ((e # evs) ! Suc i)"
      using i(3,4) assms(2) by (cases j) auto
  qed
  with i(1,2,3) show ?thesis
    unfolding first_of_key_def by (intro exI[of _ "Suc i"]) simp
qed

text \<open>
  The invariant of the loop: \<^verbatim>\<open>seen\<close> holds the keys of \<^verbatim>\<open>unique_events\<close>, which are
  distinct; what the loop appends has fresh keys, covers the keys of the events read, and
  each appended entry comes from the first event with its key.
\<close>

lemma unique_loop_inv:
  "unique_loop evs seen acc = Inr out \<Longrightarrow> seen = set (map listed_key acc) \<Longrightarrow>
   distinct (map listed_key acc) \<Longrightarrow>
   \<exists>new. out = acc @ new \<and> distinct (map listed_key out)
      \<and> raw_key ` set evs \<subseteq> Some ` (seen \<union> set (map listed_key new))
      \<and> set (map listed_key new) \<inter> seen = {}
      \<and> (\<forall>l\<in>set new. first_of_key evs l)"
proof (induction evs arbitrary: seen acc)
  case Nil
  then show ?case by simp
next
  case (Cons e evs)
  from unique_loop_step[OF Cons.prems(1)] obtain s t where
    k: "raw_key e = Some (get_time s, t)" and
    old: "(get_time s, t) \<in> seen \<longrightarrow> unique_loop evs seen acc = Inr out" and
    fresh: "(get_time s, t) \<notin> seen \<longrightarrow>
            (\<exists>l. listing e = Some l \<and> listed_key l = (get_time s, t)
               \<and> unique_loop evs (insert (get_time s, t) seen) (acc @ [l]) = Inr out)"
    by blast
  show ?case
  proof (cases "(get_time s, t) \<in> seen")
    case True
    from old True have rec: "unique_loop evs seen acc = Inr out" by simp
    from Cons.IH[OF rec Cons.prems(2,3)] obtain new where
      n: "out = acc @ new" "distinct (map listed_key out)"
         "raw_key ` set evs \<subseteq> Some ` (seen \<union> set (map listed_key new))"
         "set (map listed_key new) \<inter> seen = {}"
         "\<forall>l\<in>set new. first_of_key evs l"
      by blast
    have "\<forall>l\<in>set new. first_of_key (e # evs) l"
    proof
      fix l assume l: "l \<in> set new"
      then have "listed_key l \<in> set (map listed_key new)" by simp
      with n(4) have "listed_key l \<notin> seen" by blast
      then have "raw_key e \<noteq> Some (listed_key l)" using k True by auto
      with n(5) l show "first_of_key (e # evs) l" by (simp add: first_of_key_tail)
    qed
    moreover have "raw_key ` set (e # evs) \<subseteq> Some ` (seen \<union> set (map listed_key new))"
      using n(3) k True by auto
    ultimately show ?thesis using n(1,2,4) by blast
  next
    case False
    from fresh False obtain l where
      l: "listing e = Some l" "listed_key l = (get_time s, t)" and
      rec: "unique_loop evs (insert (get_time s, t) seen) (acc @ [l]) = Inr out"
      by blast
    have s': "insert (get_time s, t) seen = set (map listed_key (acc @ [l]))"
      using Cons.prems(2) l(2) by simp
    have d': "distinct (map listed_key (acc @ [l]))"
      using Cons.prems(2,3) l(2) False by simp
    from Cons.IH[OF rec s' d'] obtain new where
      n: "out = (acc @ [l]) @ new" "distinct (map listed_key out)"
         "raw_key ` set evs \<subseteq> Some ` (insert (get_time s, t) seen \<union> set (map listed_key new))"
         "set (map listed_key new) \<inter> insert (get_time s, t) seen = {}"
         "\<forall>l\<in>set new. first_of_key evs l"
      by blast
    have a: "out = acc @ (l # new)" using n(1) by simp
    have b: "raw_key ` set (e # evs) \<subseteq> Some ` (seen \<union> set (map listed_key (l # new)))"
      using n(3) k l(2) by auto
    have c: "set (map listed_key (l # new)) \<inter> seen = {}"
      using n(4) l(2) False by auto
    have "\<forall>x\<in>set (l # new). first_of_key (e # evs) x"
    proof
      fix x assume x: "x \<in> set (l # new)"
      show "first_of_key (e # evs) x"
      proof (cases "x = l")
        case True
        then show ?thesis using l k by (simp add: first_of_key_head)
      next
        case False
        then have xin: "x \<in> set new" using x by simp
        then have "listed_key x \<in> set (map listed_key new)" by simp
        with n(4) have "listed_key x \<noteq> (get_time s, t)" by blast
        then have "raw_key e \<noteq> Some (listed_key x)" using k by simp
        with n(5) xin show ?thesis by (simp add: first_of_key_tail)
      qed
    qed
    with a b c n(2) show ?thesis by blast
  qed
qed

text \<open>
  Claim C3. For every backend response, the sequence that \<^verbatim>\<open>list_events_tool\<close> returns is
  deduplicated by the pair (start, summary): the keys of the output are pairwise
  different, every entry of the backend's answer has its key in the output (so of two or
  more entries with the same start and summary exactly one appears), and each output
  entry is built from the first backend entry with its key, in backend order.
\<close>

theorem list_events_deduplicated:
  assumes "query_bounds lib query = Inr (tmin, tmax)"
      and "list_execute cal (list_request_of cal tmin tmax) = Inr r"
      and "fst (list_events_tool lib cal query) = Events out"
  shows "distinct (map listed_key out)
       \<and> (\<forall>e\<in>set (items_of r). \<exists>l\<in>set out. raw_key e = Some (listed_key l))
       \<and> (\<forall>l\<in>set out. \<exists>i<length (items_of r).
             listing (items_of r ! i) = Some l
           \<and> (\<forall>j<i. raw_key (items_of r ! j) \<noteq> raw_key (items_of r ! i)))"
proof -
  from assms have loop: "unique_loop (items_of r) {} [] = Inr out"
    by (auto simp: list_events_tool_def Let_def split: sum.splits if_splits)
  from unique_loop_inv[OF loop] have
    d: "distinct (map listed_key out)" and
    c: "raw_key ` set (items_of r) \<subseteq> Some ` set (map listed_key out)" and
    f: "\<forall>l\<in>set out. first_of_key (items_of r) l"
    by auto
  have "\<forall>e\<in>set (items_of r). \<exists>l\<in>set out. raw_key e = Some (listed_key l)"
    using c by auto
  moreover have "\<forall>l\<in>set out. \<exists>i<length (items_of r).
             listing (items_of r ! i) = Some l
           \<and> (\<forall>j<i. raw_key (items_of r ! j) \<noteq> raw_key (items_of r ! i))"
    using f unfolding first_of_key_def by blast
  ultimately show ?thesis using d by blast
qed

text \<open>
  Two entries "standup" at 09:30 (ending at 10:00 and at 10:15) and one "lunch": the
  output has the first "standup" and the "lunch".
\<close>

theorem list_events_deduplicated_witness:
  "fst (list_events_tool (python 1717232400000000)
     (holding [timed_event ''standup'' ''2024-06-01T09:30:00Z'' ''2024-06-01T10:00:00Z'',
               timed_event ''standup'' ''2024-06-01T09:30:00Z'' ''2024-06-01T10:15:00Z'',
               timed_event ''lunch'' ''2024-06-01T12:00:00Z'' ''2024-06-01T13:00:00Z'']) None)
     = Events [\<lparr>le_start = Some ''2024-06-01T09:30:00Z'', le_summary = ''standup'',
                 le_end = Some ''2024-06-01T10:00:00Z''\<rparr>,
               \<lparr>le_start = Some ''2024-06-01T12:00:00Z'', le_summary = ''lunch'',
                 le_end = Some ''2024-06-01T13:00:00Z''\<rparr>]
   \<and> distinct (map listed_key
              [\<lparr>le_start = Some ''2024-06-01T09:30:00Z'', le_summary = ''standup'',
                 le_end = Some ''2024-06-01T10:00:00Z''\<rparr>,
               \<lparr>le_start = Some ''2024-06-01T12:00:00Z'', le_summary = ''lunch'',
                 le_end = Some ''2024-06-01T13:00:00Z''\<rparr>])"
proof -
  let ?lib = "python 1717232400000000"
  let ?evs = "[timed_event ''standup'' ''2024-06-01T09:30:00Z'' ''2024-06-01T10:00:00Z'',
               timed_event ''standup'' ''2024-06-01T09:30:00Z'' ''2024-06-01T10:15:00Z'',
               timed_event ''lunch'' ''2024-06-01T12:00:00Z'' ''2024-06-01T13:00:00Z'']"
  have a: "query_bounds ?lib None
     = Inr (''2024-06-01T09:00:00+00:00'', ''2024-06-08T09:00:00+00:00'')"
    by code_simp
  have b: "list_execute (holding ?evs)
        (list_request_of (holding ?evs) ''2024-06-01T09:00:00+00:00'' ''2024-06-08T09:00:00+00:00'')
       = Inr (Some ?evs)"
    by (simp add: holding_def list_request_of_def)
  have c: "fst (list_events_tool ?lib (holding ?evs) None)
     = Events [\<lparr>le_start = Some ''2024-06-01T09:30:00Z'', le_summary = ''standup'',
                 le_end = Some ''2024-06-01T10:00:00Z''\<rparr>,
               \<lparr>le_start = Some ''2024-06-01T12:00:00Z'', le_summary = ''lunch'',
                 le_end = Some ''2024-06-01T13:00:00Z''\<rparr>]"
    by code_simp
  from list_events_deduplicated[OF a b c] c show ?thesis by blast
qed

section \<open>All-day events\<close>

text \<open>The sweep raises once the list holds an event whose start has no \<^verbatim>\<open>'dateTime'\<close>.\<close>

lemma slot_loop_all_day:
  "e \<in> set evs \<Longrightarrow> ev_start e = Some sd \<Longrightarrow> dateTime sd = None \<Longrightarrow>
   isl (slot_loop lib m evs le acc)"
proof (induction evs arbitrary: le acc)
  case Nil
  then show ?case by simp
next
  case (Cons x evs)
  show ?case
  proof (cases "x = e")
    case True
    then show ?thesis using Cons.prems(2,3) by (simp add: event_instant_def)
  next
    case False
    then have "e \<in> set evs" using Cons.prems(1) by simp
    from Cons.IH[OF this Cons.prems(2,3)] show ?thesis
      by (simp split: sum.splits)
  qed
qed

text \<open>
  Claim C9. \<^verbatim>\<open>find_available_slots_tool\<close> is not total over backend responses: whenever
  the response holds an all-day event (its start carries \<^verbatim>\<open>'date'\<close> and no \<^verbatim>\<open>'dateTime'\<close>), the
  tool raises an exception, which nothing catches, instead of returning a slot list;
  \<^verbatim>\<open>list_events_tool\<close>, given that event, lists it with the \<^verbatim>\<open>'date'\<close> value as its start.
\<close>

theorem all_day_event_raises:
  assumes "ev_start e = Some sd" and "dateTime sd = None" and "date sd = Some day"
      and "ev_end e = Some ed" and "ev_summary e = Some title"
      and "list_execute cal (slots_request_of lib cal) = Inr r" and "e \<in> set (items_of r)"
      and "query_bounds lib query = Inr (tmin, tmax)"
      and "list_execute cal (list_request_of cal tmin tmax) = Inr (Some [e])"
  shows "isl (fst (find_available_slots_tool lib cal m))
       \<and> fst (list_events_tool lib cal query)
           = Events [\<lparr>le_start = Some day, le_summary = title, le_end = get_time ed\<rparr>]"
proof -
  have "isl (slot_loop lib m (items_of r) (now lib) [])"
    using slot_loop_all_day[OF assms(7,1,2)] .
  then have one: "isl (fst (find_available_slots_tool lib cal m))"
    using assms(6) by (auto simp: find_available_slots_tool_def Let_def isl_def)
  have two: "fst (list_events_tool lib cal query)
           = Events [\<lparr>le_start = Some day, le_summary = title, le_end = get_time ed\<rparr>]"
    using assms(1-5,8,9)
    by (simp add: list_events_tool_def Let_def items_of_def get_time_def)
  from one two show ?thesis by simp
qed

text \<open>
  A holiday on 2024-06-01: the slot tool raises \<^verbatim>\<open>KeyError('dateTime')\<close>, the list tool
  returns the event with start 2024-06-01.
\<close>

theorem all_day_event_raises_witness:
  "fst (find_available_slots_tool (python 1717232400000000)
          (holding [all_day_event ''holiday'' ''2024-06-01'' ''2024-06-02'']) 30)
     = Inl (KeyError ''dateTime'')
   \<and> isl (fst (find_available_slots_tool (python 1717232400000000)
          (holding [all_day_event ''holiday'' ''2024-06-01'' ''2024-06-02'']) 30))
   \<and> fst (list_events_tool (python 1717232400000000)
          (holding [all_day_event ''holiday'' ''2024-06-01'' ''2024-06-02'']) None)
     = Events [\<lparr>le_start = Some ''2024-06-01'', le_summary = ''holiday'',
                 le_end = Some ''2024-06-02''\<rparr>]"
proof -
  let ?lib = "python 1717232400000000"
  let ?e = "all_day_event ''holiday'' ''2024-06-01'' ''2024-06-02''"
  let ?sd = "\<lparr>dateTime = None, date = Some ''2024-06-01''\<rparr>"
  let ?ed = "\<lparr>dateTime = None, date = Some ''2024-06-02''\<rparr>"
  have a1: "ev_start ?e = Some ?sd" by (simp add: all_day_event_def)
  have a2: "dateTime ?sd = None" by simp
  have a3: "date ?sd = Some ''2024-06-01''" by simp
  have a4: "ev_end ?e = Some ?ed" by (simp add: all_day_event_def)
  have a5: "ev_summary ?e = Some ''holiday''" by (simp add: all_day_event_def)
  have a6: "list_execute (holding [?e]) (slots_request_of ?lib (holding [?e])) = Inr (Some [?e])"
    by (simp add: holding_def slots_request_of_def)
  have a7: "?e \<in> set (items_of (Some [?e]))" by (simp add: items_of_def)
  have a8: "query_bounds ?lib None
     = Inr (''2024-06-01T09:00:00+00:00'', ''2024-06-08T09:00:00+00:00'')"
    by code_simp
  have a9: "list_execute (holding [?e])
        (list_request_of (holding [?e]) ''2024-06-01T09:00:00+00:00'' ''2024-06-08T09:00:00+00:00'')
       = Inr (Some [?e])"
    by (simp add: holding_def list_request_of_def)
  have run: "fst (find_available_slots_tool ?lib (holding [?e]) 30) = Inl (KeyError ''dateTime'')"
    by code_simp
  from all_day_event_raises[OF a1 a2 a3 a4 a5 a6 a7 a8 a9, of 30] run
  show ?thesis by (simp add: get_time_def)
qed

section \<open>The limit of 20 events\<close>

text \<open>The deduplication loop appends at most one entry per event read.\<close>

lemma unique_loop_length:
  "unique_loop evs seen acc = Inr out \<Longrightarrow> length out \<le> length acc + length evs"
proof (induction evs arbitrary: seen acc)
  case Nil
  then show ?case by simp
next
  case (Cons e evs)
  from unique_loop_step[OF Cons.prems] obtain s t where
    old: "(get_time s, t) \<in> seen \<longrightarrow> unique_loop evs seen acc = Inr out" and
    fresh: "(get_time s, t) \<notin> seen \<longrightarrow>
            (\<exists>l. listing e = Some l \<and> listed_key l = (get_time s, t)
               \<and> unique_loop evs (insert (get_time s, t) seen) (acc @ [l]) = Inr out)"
    by blast
  show ?case
  proof (cases "(get_time s, t) \<in> seen")
    case True
    with old have "unique_loop evs seen acc = Inr out" by simp
    from Cons.IH[OF this] show ?thesis by simp
  next
    case False
    with fresh obtain l where
      "unique_loop evs (insert (get_time s, t) seen) (acc @ [l]) = Inr out" by blast
    from Cons.IH[OF this] show ?thesis by simp
  qed
qed

text \<open>The requests the two tools issue.\<close>

lemma slots_requests:
  "snd (find_available_slots_tool lib cal m) = [ListReq (slots_request_of lib cal)]"
  by (simp add: find_available_slots_tool_def Let_def split: sum.splits prod.splits)

lemma list_requests:
  "rq \<in> set (snd (list_events_tool lib cal query)) \<Longrightarrow> \<exists>lr. rq = ListReq lr \<and> maxResults lr = 20"
  by (auto simp: list_events_tool_def Let_def list_request_of_def
           split: sum.splits prod.splits if_splits)

text \<open>
  Claim C10. Both tools ask the backend for at most 20 events (\<^verbatim>\<open>maxResults=20\<close>): every
  request they issue carries that limit. So, for a backend that serves each request
  with the first \<^verbatim>\<open>maxResults\<close> matching events, the list that \<^verbatim>\<open>list_events_tool\<close> returns
  has at most 20 entries, and two calendars whose matching events agree on the first 20
  give the same result in both tools: events beyond the first 20 are ignored by the
  deduplication and by the sweep.
\<close>

theorem only_first_twenty:
  assumes "serves cal matching" and "serves cal' matching'"
      and "calendar_id cal' = calendar_id cal"
      and "\<forall>req. take 20 (matching' req) = take 20 (matching req)"
  shows "snd (find_available_slots_tool lib cal m) = [ListReq (slots_request_of lib cal)]
       \<and> maxResults (slots_request_of lib cal) = 20
       \<and> (\<forall>rq\<in>set (snd (list_events_tool lib cal query)).
             \<exists>lr. rq = ListReq lr \<and> maxResults lr = 20)
       \<and> (\<forall>out. fst (list_events_tool lib cal query) = Events out \<longrightarrow> length out \<le> 20)
       \<and> list_events_tool lib cal' query = list_events_tool lib cal query
       \<and> find_available_slots_tool lib cal' m = find_available_slots_tool lib cal m"
proof -
  have ans: "\<And>req. maxResults req = 20 \<Longrightarrow>
               list_execute cal req = Inr (Some (take 20 (matching req)))"
    using assms(1) by (simp add: serves_def)
  have ans': "\<And>req. maxResults req = 20 \<Longrightarrow>
               list_execute cal' req = Inr (Some (take 20 (matching req)))"
    using assms(2,4) by (simp add: serves_def)
  have len: "\<forall>out. fst (list_events_tool lib cal query) = Events out \<longrightarrow> length out \<le> 20"
  proof (intro allI impI)
    fix out assume o: "fst (list_events_tool lib cal query) = Events out"
    then obtain tmin tmax where
      loop: "unique_loop (take 20 (matching (list_request_of cal tmin tmax))) {} [] = Inr out"
      using ans[of "list_request_of cal _ _"]
      by (auto simp: list_events_tool_def Let_def items_of_def list_request_of_def
               split: sum.splits if_splits)
    from unique_loop_length[OF loop] show "length out \<le> 20" by simp
  qed
  have rl: "\<And>a b. list_request_of cal' a b = list_request_of cal a b"
    using assms(3) by (simp add: list_request_of_def)
  have rs: "slots_request_of lib cal' = slots_request_of lib cal"
    using assms(3) by (simp add: slots_request_of_def)
  have ml: "\<And>a b. maxResults (list_request_of cal a b) = 20"
    by (simp add: list_request_of_def)
  have ms: "maxResults (slots_request_of lib cal) = 20"
    by (simp add: slots_request_of_def)
  have el: "\<And>a b. list_execute cal' (list_request_of cal a b)
                    = list_execute cal (list_request_of cal a b)"
    using ans[OF ml] ans'[OF ml] by simp
  have es: "list_execute cal' (slots_request_of lib cal)
              = list_execute cal (slots_request_of lib cal)"
    using ans[OF ms] ans'[OF ms] by simp
  have same_list: "list_events_tool lib cal' query = list_events_tool lib cal query"
  proof (cases "query_bounds lib query")
    case (Inl msg)
    then show ?thesis by (simp add: list_events_tool_def)
  next
    case (Inr b)
    obtain tmin tmax where "b = (tmin, tmax)" by (cases b)
    with Inr show ?thesis by (simp add: list_events_tool_def Let_def rl el)
  qed
  have same_slots: "find_available_slots_tool lib cal' m = find_available_slots_tool lib cal m"
    by (simp add: find_available_slots_tool_def Let_def rs es)
  show ?thesis
    using slots_requests[of lib cal m] list_requests[of _ lib cal query] len same_list same_slots ms
    by blast
qed

text \<open>
  Twenty meetings at 09:30 and a later event from 12:00 to 13:00, at 2024-06-01T09:00:00Z:
  both tools answer as if the 21st event were not there; the list has 20 entries and the
  only slot runs from 10:00 to 23:59:59.
\<close>

theorem only_first_twenty_witness:
  "list_events_tool (python 1717232400000000) (holding (meetings 20)) None
     = list_events_tool (python 1717232400000000)
         (holding (meetings 20 @ [timed_event ''late'' ''2024-06-01T12:00:00Z''
                                    ''2024-06-01T13:00:00Z''])) None
   \<and> find_available_slots_tool (python 1717232400000000) (holding (meetings 20)) 30
     = find_available_slots_tool (python 1717232400000000)
         (holding (meetings 20 @ [timed_event ''late'' ''2024-06-01T12:00:00Z''
                                    ''2024-06-01T13:00:00Z''])) 30
   \<and> fst (find_available_slots_tool (python 1717232400000000)
         (holding (meetings 20 @ [timed_event ''late'' ''2024-06-01T12:00:00Z''
                                    ''2024-06-01T13:00:00Z''])) 30)
     = Inr [mk_slot 1717236000000000 1717286399000000]
   \<and> (case fst (list_events_tool (python 1717232400000000)
         (holding (meetings 20 @ [timed_event ''late'' ''2024-06-01T12:00:00Z''
                                    ''2024-06-01T13:00:00Z''])) None) of
        Events out \<Rightarrow> length out = 20
      | Message msg \<Rightarrow> False)"
proof -
  let ?lib = "python 1717232400000000"
  let ?late = "timed_event ''late'' ''2024-06-01T12:00:00Z'' ''2024-06-01T13:00:00Z''"
  have s1: "serves (holding (meetings 20 @ [?late])) (\<lambda>req. meetings 20 @ [?late])"
    by (simp add: serves_def holding_def)
  have s2: "serves (holding (meetings 20)) (\<lambda>req. meetings 20)"
    by (simp add: serves_def holding_def)
  have c: "calendar_id (holding (meetings 20)) = calendar_id (holding (meetings 20 @ [?late]))"
    by (simp add: holding_def)
  have t: "\<forall>req::list_request. take 20 (meetings 20) = take 20 (meetings 20 @ [?late])"
    by (simp add: meetings_def)
  have run: "fst (find_available_slots_tool ?lib (holding (meetings 20 @ [?late])) 30)
     = Inr [mk_slot 1717236000000000 1717286399000000]"
    by code_simp
  have len: "(case fst (list_events_tool ?lib (holding (meetings 20 @ [?late])) None) of
        Events out \<Rightarrow> length out = 20
      | Message msg \<Rightarrow> False)"
    by code_simp
  from only_first_twenty[OF s1 s2 c t, of ?lib 30 None] run len
  show ?thesis by simp
qed

section \<open>Further properties\<close>

text \<open>
  When both preconditions hold, \<^verbatim>\<open>create_event_tool\<close> issues exactly one insert request,
  carrying the summary and the two instants in \<^verbatim>\<open>isoformat()\<close> with time zone UTC, and
  returns the backend's link and id, or the backend's exception as an error.
\<close>

theorem create_event_inserts_once:
  assumes "fromisoformat_utc lib start_time = Inr start"
      and "fromisoformat_utc lib end_time = Inr end_t"
      and "start < end_t" and "now lib \<le> start"
  shows "snd (create_event_tool lib cal summary start_time end_time)
           = [InsertReq (insert_request_of lib cal summary start end_t)]
       \<and> fst (create_event_tool lib cal summary start_time end_time)
           = (case insert_execute cal (insert_request_of lib cal summary start end_t) of
                Inl e \<Rightarrow> Error (str_exn e)
              | Inr created \<Rightarrow> Success (htmlLink created) (created_id created))"
  using assms by (simp add: create_event_tool_def Let_def split: sum.splits)

text \<open>An event from 10:00 to 11:00 on 2099-01-01, created at 2024-06-01T09:00:00Z.\<close>

theorem create_event_inserts_once_witness:
  "create_event_tool (python 1717232400000000) (holding []) ''review''
      ''2099-01-01T10:00:00Z'' ''2099-01-01T11:00:00Z''
     = (Success (Some ''https://calendar.example/e1'') (Some ''e1''),
        [InsertReq \<lparr>ins_calendarId = ''primary'', ins_summary = ''review'',
           ins_start_dateTime = ''2099-01-01T10:00:00+00:00'', ins_start_timeZone = ''UTC'',
           ins_end_dateTime = ''2099-01-01T11:00:00+00:00'', ins_end_timeZone = ''UTC''\<rparr>])"
proof -
  let ?lib = "python 1717232400000000"
  have a: "fromisoformat_utc ?lib ''2099-01-01T10:00:00Z'' = Inr 4070944800000000" by code_simp
  have b: "fromisoformat_utc ?lib ''2099-01-01T11:00:00Z'' = Inr 4070948400000000" by code_simp
  have c: "(4070944800000000::int) < 4070948400000000" by simp
  have d: "now ?lib \<le> 4070944800000000" by code_simp
  have e: "insert_request_of ?lib (holding []) ''review'' 4070944800000000 4070948400000000
     = \<lparr>ins_calendarId = ''primary'', ins_summary = ''review'',
           ins_start_dateTime = ''2099-01-01T10:00:00+00:00'', ins_start_timeZone = ''UTC'',
           ins_end_dateTime = ''2099-01-01T11:00:00+00:00'', ins_end_timeZone = ''UTC''\<rparr>"
    by code_simp
  have f: "insert_execute (holding []) = (\<lambda>req. Inr \<lparr>htmlLink = Some ''https://calendar.example/e1'', created_id = Some ''e1''\<rparr>)"
    by (simp add: holding_def)
  from create_event_inserts_once[OF a b c d, of "holding []" "''review''"] e f
  show ?thesis by (simp add: prod_eq_iff)
qed

text \<open>
  \<open>urllib_parse_qs\<close> gives every name at least one value, so taking the first values
  raises nothing.
\<close>

lemma add_value_nonempty:
  "\<forall>kv\<in>set d. snd kv \<noteq> [] \<Longrightarrow> \<forall>kv\<in>set (add_value d p). snd kv \<noteq> []"
  by (induction d p rule: add_value.induct) auto

lemma foldl_add_value_nonempty:
  "\<forall>kv\<in>set d. snd kv \<noteq> [] \<Longrightarrow> \<forall>kv\<in>set (foldl add_value d ps). snd kv \<noteq> []"
proof (induction ps arbitrary: d)
  case Nil
  then show ?case by simp
next
  case (Cons p ps)
  from Cons.IH[OF add_value_nonempty[OF Cons.prems]] show ?case by simp
qed

lemma first_values_nonempty:
  "\<forall>kv\<in>set d. snd kv \<noteq> [] \<Longrightarrow> \<exists>ps. first_values d = Inr ps"
  by (induction d rule: first_values.induct) (auto split: list.splits)

text \<open>
  With \<open>urllib_parse_qs\<close> as \<^verbatim>\<open>parse_qs\<close>, the early return of line 111 is never taken:
  \<^verbatim>\<open>list_events_tool\<close> returns the "Invalid query format" text for no query at all.
\<close>

theorem urllib_never_invalid_query:
  "fst (list_events_tool (python clock) cal query) \<noteq> Message invalid_query_msg"
proof -
  have tot: "\<exists>ps. first_values (foldl add_value [] (parse_qsl (split_on CHR ''&'' q))) = Inr ps"
    for q
    by (rule first_values_nonempty, rule foldl_add_value_nonempty) simp
  have "\<not> (\<exists>m. query_bounds (python clock) query = Inl m)"
  proof (cases "if has_params query then query else None")
    case None
    then show ?thesis by (simp add: query_bounds_def Let_def)
  next
    case (Some q)
    from tot[of q] obtain ps where
      "first_values (foldl add_value [] (parse_qsl (split_on CHR ''&'' q))) = Inr ps" by blast
    with Some show ?thesis
      by (simp add: query_bounds_def Let_def python_def urllib_parse_qs_def)
  qed
  then show ?thesis by (simp add: list_events_tool_invalid)
qed

section \<open>Free slots avoid the events and come in order\<close>

text \<open>One round of the sweep, when the sweep ends without an exception.\<close>

lemma slot_loop_Cons:
  assumes "slot_loop lib m (e # evs) le acc = Inr (le', acc')"
  shows "\<exists>a b. event_span lib e = Some (a, b)
      \<and> slot_loop lib m evs (max le b)
            (if le + minutes_us m < a then acc @ [mk_slot le a] else acc) = Inr (le', acc')"
proof -
  from assms obtain a b bound where
    a: "event_instant lib ''start'' (ev_start e) = Inr a" and
    b: "event_instant lib ''end'' (ev_end e) = Inr b" and
    c: "add_minutes le m = Inr bound" and
    r: "slot_loop lib m evs (max le b) (if bound < a then acc @ [mk_slot le a] else acc)
          = Inr (le', acc')"
    by (auto split: sum.splits)
  from a b have "event_span lib e = Some (a, b)" by (simp add: event_span_def)
  with r add_minutes_Inr[OF c] show ?thesis by auto
qed

text \<open>
  Over events in ascending start order, the cursor ends at or after every event's end,
  and every slot the sweep appends starts at or after the cursor it began with and
  overlaps no event.
\<close>

lemma slot_loop_free:
  "slot_loop lib m evs le acc = Inr (le', acc') \<Longrightarrow>
   sorted_wrt (\<lambda>e1 e2. \<forall>a b c d. event_span lib e1 = Some (a, b)
                  \<longrightarrow> event_span lib e2 = Some (c, d) \<longrightarrow> a \<le> c) evs \<Longrightarrow>
   \<exists>new. acc' = acc @ new \<and> le \<le> le'
     \<and> (\<forall>e\<in>set evs. \<forall>a b. event_span lib e = Some (a, b) \<longrightarrow> b \<le> le')
     \<and> (\<forall>s\<in>set new. le \<le> slot_start s
           \<and> (\<forall>e\<in>set evs. \<forall>a b. event_span lib e = Some (a, b)
                  \<longrightarrow> b \<le> slot_start s \<or> slot_end s \<le> a))"
proof (induction evs arbitrary: le acc)
  case Nil
  then show ?case by simp
next
  case (Cons e evs)
  from slot_loop_Cons[OF Cons.prems(1)] obtain a b where
    sp: "event_span lib e = Some (a, b)" and
    rec: "slot_loop lib m evs (max le b)
            (if le + minutes_us m < a then acc @ [mk_slot le a] else acc) = Inr (le', acc')"
    by blast
  have later: "\<forall>x\<in>set evs. \<forall>c d. event_span lib x = Some (c, d) \<longrightarrow> a \<le> c"
    using Cons.prems(2) sp by simp
  have srt: "sorted_wrt (\<lambda>e1 e2. \<forall>a b c d. event_span lib e1 = Some (a, b)
                  \<longrightarrow> event_span lib e2 = Some (c, d) \<longrightarrow> a \<le> c) evs"
    using Cons.prems(2) by simp
  from Cons.IH[OF rec srt] obtain new where
    n1: "acc' = (if le + minutes_us m < a then acc @ [mk_slot le a] else acc) @ new" and
    n2: "max le b \<le> le'" and
    n3: "\<forall>x\<in>set evs. \<forall>c d. event_span lib x = Some (c, d) \<longrightarrow> d \<le> le'" and
    n4: "\<forall>s\<in>set new. max le b \<le> slot_start s
           \<and> (\<forall>x\<in>set evs. \<forall>c d. event_span lib x = Some (c, d)
                  \<longrightarrow> d \<le> slot_start s \<or> slot_end s \<le> c)"
    by blast
  let ?new = "(if le + minutes_us m < a then [mk_slot le a] else []) @ new"
  have a1: "acc' = acc @ ?new" using n1 by simp
  have a2: "le \<le> le'" using n2 by simp
  have a3: "\<forall>x\<in>set (e # evs). \<forall>c d. event_span lib x = Some (c, d) \<longrightarrow> d \<le> le'"
    using n2 n3 sp by auto
  have a4: "\<forall>s\<in>set ?new. le \<le> slot_start s
           \<and> (\<forall>x\<in>set (e # evs). \<forall>c d. event_span lib x = Some (c, d)
                  \<longrightarrow> d \<le> slot_start s \<or> slot_end s \<le> c)"
  proof
    fix s assume s: "s \<in> set ?new"
    show "le \<le> slot_start s
           \<and> (\<forall>x\<in>set (e # evs). \<forall>c d. event_span lib x = Some (c, d)
                  \<longrightarrow> d \<le> slot_start s \<or> slot_end s \<le> c)"
    proof (cases "s \<in> set new")
      case True
      with n4 have "max le b \<le> slot_start s"
        and "\<forall>x\<in>set evs. \<forall>c d. event_span lib x = Some (c, d)
                  \<longrightarrow> d \<le> slot_start s \<or> slot_end s \<le> c"
        by blast+
      then show ?thesis using sp by auto
    next
      case False
      with s have "s = mk_slot le a" by (auto split: if_splits)
      then show ?thesis using sp later by (auto simp: mk_slot_def)
    qed
  qed
  from a1 a2 a3 a4 show ?case by blast
qed

text \<open>
  Over events that do not end before they start, the slots collected end at or before
  the cursor and follow one another without overlap.
\<close>

lemma slot_loop_ordered:
  "slot_loop lib m evs le acc = Inr (le', acc') \<Longrightarrow>
   (\<forall>e\<in>set evs. \<forall>a b. event_span lib e = Some (a, b) \<longrightarrow> a \<le> b) \<Longrightarrow>
   sorted_wrt (\<lambda>s1 s2. slot_end s1 \<le> slot_start s2) acc \<Longrightarrow>
   (\<forall>s\<in>set acc. slot_end s \<le> le) \<Longrightarrow>
   sorted_wrt (\<lambda>s1 s2. slot_end s1 \<le> slot_start s2) acc'
     \<and> (\<forall>s\<in>set acc'. slot_end s \<le> le')"
proof (induction evs arbitrary: le acc)
  case Nil
  then show ?case by simp
next
  case (Cons e evs)
  from slot_loop_Cons[OF Cons.prems(1)] obtain a b where
    sp: "event_span lib e = Some (a, b)" and
    rec: "slot_loop lib m evs (max le b)
            (if le + minutes_us m < a then acc @ [mk_slot le a] else acc) = Inr (le', acc')"
    by blast
  have ab: "a \<le> b" using Cons.prems(2) sp by simp
  have v: "\<forall>x\<in>set evs. \<forall>c d. event_span lib x = Some (c, d) \<longrightarrow> c \<le> d"
    using Cons.prems(2) by simp
  have s: "sorted_wrt (\<lambda>s1 s2. slot_end s1 \<le> slot_start s2)
             (if le + minutes_us m < a then acc @ [mk_slot le a] else acc)"
    using Cons.prems(3,4) by (simp add: sorted_wrt_append mk_slot_def)
  have u: "\<forall>s\<in>set (if le + minutes_us m < a then acc @ [mk_slot le a] else acc).
             slot_end s \<le> max le b"
    using Cons.prems(4) ab by (auto simp: mk_slot_def)
  from Cons.IH[OF rec v s u] show ?case .
qed

text \<open>Both invariants, carried to the tool's result with its trailing slot.\<close>

lemma slots_ordered_and_free:
  assumes "fst (find_available_slots_tool lib cal m) = Inr slots"
      and "list_execute cal (slots_request_of lib cal) = Inr r"
  shows "(sorted_wrt (\<lambda>e1 e2. \<forall>a b c d. event_span lib e1 = Some (a, b)
                  \<longrightarrow> event_span lib e2 = Some (c, d) \<longrightarrow> a \<le> c) (items_of r) \<longrightarrow>
          (\<forall>s\<in>set slots. now lib \<le> slot_start s
             \<and> (\<forall>e\<in>set (items_of r). \<forall>a b. event_span lib e = Some (a, b)
                    \<longrightarrow> b \<le> slot_start s \<or> slot_end s \<le> a)))
       \<and> ((\<forall>e\<in>set (items_of r). \<forall>a b. event_span lib e = Some (a, b) \<longrightarrow> a \<le> b) \<longrightarrow>
          sorted_wrt (\<lambda>s1 s2. slot_end s1 \<le> slot_start s2) slots)"
proof -
  from assms obtain le acc bound where
    loop: "slot_loop lib m (items_of r) (now lib) [] = Inr (le, acc)" and
    b: "add_minutes le m = Inr bound" and
    out: "slots = (if end_of_day (now lib) > bound
                   then acc @ [mk_slot le (end_of_day (now lib))] else acc)"
    by (auto simp: find_available_slots_tool_def Let_def split: sum.splits prod.splits)
  have free: "\<forall>s\<in>set slots. now lib \<le> slot_start s
             \<and> (\<forall>e\<in>set (items_of r). \<forall>a b. event_span lib e = Some (a, b)
                    \<longrightarrow> b \<le> slot_start s \<or> slot_end s \<le> a)"
    if srt: "sorted_wrt (\<lambda>e1 e2. \<forall>a b c d. event_span lib e1 = Some (a, b)
                  \<longrightarrow> event_span lib e2 = Some (c, d) \<longrightarrow> a \<le> c) (items_of r)"
  proof -
    from slot_loop_free[OF loop srt] have
      l: "now lib \<le> le" and
      e: "\<forall>e\<in>set (items_of r). \<forall>a b. event_span lib e = Some (a, b) \<longrightarrow> b \<le> le" and
      f: "\<forall>s\<in>set acc. now lib \<le> slot_start s
           \<and> (\<forall>e\<in>set (items_of r). \<forall>a b. event_span lib e = Some (a, b)
                  \<longrightarrow> b \<le> slot_start s \<or> slot_end s \<le> a)"
      by auto
    show ?thesis
    proof
      fix s assume "s \<in> set slots"
      then consider "s \<in> set acc" | "s = mk_slot le (end_of_day (now lib))"
        using out by (auto split: if_splits)
      then show "now lib \<le> slot_start s
             \<and> (\<forall>e\<in>set (items_of r). \<forall>a b. event_span lib e = Some (a, b)
                    \<longrightarrow> b \<le> slot_start s \<or> slot_end s \<le> a)"
      proof cases
        case 1
        with f show ?thesis by blast
      next
        case 2
        with l e show ?thesis by (simp add: mk_slot_def)
      qed
    qed
  qed
  have ord: "sorted_wrt (\<lambda>s1 s2. slot_end s1 \<le> slot_start s2) slots"
    if v: "\<forall>e\<in>set (items_of r). \<forall>a b. event_span lib e = Some (a, b) \<longrightarrow> a \<le> b"
  proof -
    from slot_loop_ordered[OF loop v] have
      "sorted_wrt (\<lambda>s1 s2. slot_end s1 \<le> slot_start s2) acc"
      and "\<forall>s\<in>set acc. slot_end s \<le> le"
      by auto
    then show ?thesis using out by (simp add: sorted_wrt_append mk_slot_def)
  qed
  from free ord show ?thesis by blast
qed


text \<open>Ascending starts, said of the list of spans.\<close>

lemma spans_ascending:
  "map (event_span lib) evs = map Some spans \<Longrightarrow> sorted (map fst spans) \<Longrightarrow>
   sorted_wrt (\<lambda>e1 e2. \<forall>a b c d. event_span lib e1 = Some (a, b)
                  \<longrightarrow> event_span lib e2 = Some (c, d) \<longrightarrow> a \<le> c) evs"
proof (induction evs arbitrary: spans)
  case Nil
  then show ?case by simp
next
  case (Cons e evs)
  from Cons.prems(1) obtain sp rest where
    spans: "spans = sp # rest" and
    e: "event_span lib e = Some sp" and
    r: "map (event_span lib) evs = map Some rest"
    by (cases spans) auto
  have srt: "sorted (map fst rest)" and low: "\<forall>x\<in>set rest. fst sp \<le> fst x"
    using Cons.prems(2) spans by auto
  have "\<forall>x\<in>set evs. \<forall>c d. event_span lib x = Some (c, d) \<longrightarrow> fst sp \<le> c"
  proof (intro ballI allI impI)
    fix x c d assume x: "x \<in> set evs" and xs: "event_span lib x = Some (c, d)"
    from x have "event_span lib x \<in> set (map (event_span lib) evs)" by simp
    with r xs have "(c, d) \<in> set rest" by auto
    with low show "fst sp \<le> c" by auto
  qed
  with Cons.IH[OF r srt] e show ?case by auto
qed

text \<open>
  When the backend's events come in ascending start order (\<^verbatim>\<open>orderBy='startTime'\<close>), every
  slot that \<^verbatim>\<open>find_available_slots_tool\<close> returns starts at or after now and overlaps no
  event of the answer: the event ends at or before the slot's start, or starts at or
  after the slot's end.
\<close>

theorem slots_avoid_events:
  assumes "fst (find_available_slots_tool lib cal m) = Inr slots"
      and "list_execute cal (slots_request_of lib cal) = Inr r"
      and "map (event_span lib) (items_of r) = map Some spans"
      and "sorted (map fst spans)"
      and "s \<in> set slots" and "(a, b) \<in> set spans"
  shows "now lib \<le> slot_start s \<and> (b \<le> slot_start s \<or> slot_end s \<le> a)"
proof -
  from assms(6) have "Some (a, b) \<in> set (map (event_span lib) (items_of r))"
    using assms(3) by simp
  then obtain e where e: "e \<in> set (items_of r)" "event_span lib e = Some (a, b)"
    by auto
  from slots_ordered_and_free[OF assms(1,2)] spans_ascending[OF assms(3,4)] assms(5) e
  show ?thesis by blast
qed

text \<open>
  When no event of the answer ends before it starts, the slots that
  \<^verbatim>\<open>find_available_slots_tool\<close> returns are in ascending order and pairwise
  non-overlapping: each ends at or before the start of every later one.
\<close>

theorem slots_ordered:
  assumes "fst (find_available_slots_tool lib cal m) = Inr slots"
      and "list_execute cal (slots_request_of lib cal) = Inr r"
      and "map (event_span lib) (items_of r) = map Some spans"
      and "\<forall>sp\<in>set spans. fst sp \<le> snd sp"
  shows "sorted_wrt (\<lambda>s1 s2. slot_end s1 \<le> slot_start s2) slots"
proof -
  have "\<forall>e\<in>set (items_of r). \<forall>a b. event_span lib e = Some (a, b) \<longrightarrow> a \<le> b"
  proof (intro ballI allI impI)
    fix e a b assume e: "e \<in> set (items_of r)" and sp: "event_span lib e = Some (a, b)"
    from e have "event_span lib e \<in> set (map (event_span lib) (items_of r))" by simp
    with assms(3) sp have "(a, b) \<in> set spans" by auto
    with assms(4) show "a \<le> b" by auto
  qed
  with slots_ordered_and_free[OF assms(1,2)] show ?thesis by blast
qed

text \<open>
  At 2024-06-01T09:00:00Z with the two meetings and \<open>min_duration = 30\<close>: the slots are
  09:00-09:31, 10:00-12:00 and 13:00-23:59:59.
\<close>

theorem slots_avoid_events_witness:
  "fst (find_available_slots_tool (python 1717232400000000) (holding two_meetings) 30)
     = Inr [mk_slot 1717232400000000 1717234260000000,
            mk_slot 1717236000000000 1717243200000000,
            mk_slot 1717246800000000 1717286399000000]
   \<and> map (event_span (python 1717232400000000)) two_meetings
       = map Some [(1717234260000000, 1717236000000000), (1717243200000000, 1717246800000000)]
   \<and> now (python 1717232400000000) \<le> slot_start (mk_slot 1717236000000000 1717243200000000)
   \<and> (1717236000000000 \<le> slot_start (mk_slot 1717236000000000 1717243200000000)
       \<or> slot_end (mk_slot 1717236000000000 1717243200000000) \<le> 1717234260000000)"
proof -
  let ?lib = "python 1717232400000000"
  let ?spans = "[(1717234260000000, 1717236000000000), (1717243200000000, 1717246800000000)]
                  :: (int \<times> int) list"
  have a: "fst (find_available_slots_tool ?lib (holding two_meetings) 30)
     = Inr [mk_slot 1717232400000000 1717234260000000,
            mk_slot 1717236000000000 1717243200000000,
            mk_slot 1717246800000000 1717286399000000]"
    by code_simp
  have b: "list_execute (holding two_meetings) (slots_request_of ?lib (holding two_meetings))
             = Inr (Some two_meetings)"
    by (simp add: holding_def slots_request_of_def two_meetings_def)
  have c: "map (event_span ?lib) (items_of (Some two_meetings)) = map Some ?spans"
    by code_simp
  have c': "map (event_span ?lib) two_meetings = map Some ?spans"
    by code_simp
  have d: "sorted (map fst ?spans)" by simp
  have e: "mk_slot 1717236000000000 1717243200000000
             \<in> set [mk_slot 1717232400000000 1717234260000000,
                    mk_slot 1717236000000000 1717243200000000,
                    mk_slot 1717246800000000 1717286399000000]"
    by simp
  have f: "(1717234260000000, 1717236000000000) \<in> set ?spans" by simp
  from slots_avoid_events[OF a b c d e f] a c' show ?thesis by simp
qed

text \<open>The same run: the three slots are in order.\<close>

theorem slots_ordered_witness:
  "fst (find_available_slots_tool (python 1717232400000000) (holding two_meetings) 30)
     = Inr [mk_slot 1717232400000000 1717234260000000,
            mk_slot 1717236000000000 1717243200000000,
            mk_slot 1717246800000000 1717286399000000]
   \<and> sorted_wrt (\<lambda>s1 s2. slot_end s1 \<le> slot_start s2)
        [mk_slot 1717232400000000 1717234260000000,
         mk_slot 1717236000000000 1717243200000000,
         mk_slot 1717246800000000 1717286399000000]"
proof -
  let ?lib = "python 1717232400000000"
  let ?spans = "[(1717234260000000, 1717236000000000), (1717243200000000, 1717246800000000)]
                  :: (int \<times> int) list"
  have a: "fst (find_available_slots_tool ?lib (holding two_meetings) 30)
     = Inr [mk_slot 1717232400000000 1717234260000000,
            mk_slot 1717236000000000 1717243200000000,
            mk_slot 1717246800000000 1717286399000000]"
    by code_simp
  have b: "list_execute (holding two_meetings) (slots_request_of ?lib (holding two_meetings))
             = Inr (Some two_meetings)"
    by (simp add: holding_def slots_request_of_def two_meetings_def)
  have c: "map (event_span ?lib) (items_of (Some two_meetings)) = map Some ?spans"
    by code_simp
  have d: "\<forall>sp\<in>set ?spans. fst sp \<le> snd sp" by simp
  from slots_ordered[OF a b c d] a show ?thesis by simp
qed

end
